theory Spec2Isabelle
  imports Main "HOL-Library.Word"
begin

section \<open>The 56K modem simulator of server.js\<close>

subsection \<open>Throttle configuration\<close>

text \<open>
  The constants of lines 45 to 50. All of them are non-negative integers, on which
  \<open>Math.floor (a / b)\<close> is \<open>a div b\<close>. The two derived values are written as functions
  of the values they are derived from, and then applied to the constants of the source.
\<close>

definition MODEM_BPS :: nat where
  "MODEM_BPS = 56000"

definition bytes_per_sec :: "nat \<Rightarrow> nat" where
  "bytes_per_sec bps = bps div 8"

definition MODEM_BYTES_PER_SEC :: nat where
  "MODEM_BYTES_PER_SEC = bytes_per_sec MODEM_BPS"

definition MODEM_LATENCY :: nat where
  "MODEM_LATENCY = 120"

definition CHUNK_INTERVAL :: nat where
  "CHUNK_INTERVAL = 50"

definition chunk_size :: "nat \<Rightarrow> nat \<Rightarrow> nat" where
  "chunk_size bytes_sec interval = bytes_sec * interval div 1000"

definition CHUNK_SIZE :: nat where
  "CHUNK_SIZE = chunk_size MODEM_BYTES_PER_SEC CHUNK_INTERVAL"

text \<open>
  \<open>MODEM_MODE = !IS_VERCEL && process.env.MODEM_MODE !== 'false'\<close>: the environment
  variable is absent (\<open>None\<close>) or a string.
\<close>

definition MODEM_MODE :: "bool \<Rightarrow> string option \<Rightarrow> bool" where
  "MODEM_MODE is_vercel env_modem_mode = (\<not> is_vercel \<and> env_modem_mode \<noteq> Some ''false'')"

text \<open>
  The three values the wrapped \<open>res.end\<close> and \<open>drip\<close> read. The functions below take
  them as a record, \<open>server_throttle\<close> is the one the server runs with.
\<close>

record throttle =
  latency :: nat
  interval :: nat
  chunk :: nat

definition configure :: "nat \<Rightarrow> nat \<Rightarrow> nat \<Rightarrow> throttle" where
  "configure bps lat ival =
     \<lparr>latency = lat, interval = ival, chunk = chunk_size (bytes_per_sec bps) ival\<rparr>"

definition server_throttle :: throttle where
  "server_throttle = configure MODEM_BPS MODEM_LATENCY CHUNK_INTERVAL"

subsection \<open>The response object\<close>

type_synonym byte = "8 word"
type_synonym buffer = "byte list"

text \<open>
  What \<open>write\<close> and \<open>end\<close> are handed: nothing (\<open>None\<close>, for \<open>undefined\<close> or \<open>null\<close>),
  a string or a Buffer. \<open>Buffer.from (string, encoding)\<close> is Node's; the functions that
  need it take it as the parameter \<open>bf\<close>.
\<close>

datatype chunk = Str string | Buf buffer

type_synonym buffer_from = "string \<Rightarrow> string \<Rightarrow> buffer"

text \<open>
  The calls that reach the outside: \<open>originalWrite\<close> and \<open>originalEnd\<close> on the
  underlying response, and the arming of a timer by \<open>setTimeout (drip, delay)\<close>. The
  response records each with the time of the call.
\<close>

datatype event = Write buffer | End "buffer option" | SetTimeout nat

text \<open>
  The middleware replaces methods of \<open>res\<close>; a method slot holds either Node's and
  Express's own method or the closure installed by \<open>modemThrottle\<close>.
\<close>

datatype impl = Original | Throttled

record response =
  write_impl :: impl
  end_impl :: impl
  redirect_impl :: impl
  chunks :: "buffer list option"
  body :: buffer
  offset :: nat
  now :: nat
  timer :: "nat option"
  statusCode :: nat
  location :: "string option"
  closed_at :: "nat option"
  out :: "(nat \<times> event) list"

text \<open>
  \<open>chunks\<close>, \<open>body\<close> and \<open>offset\<close> are the variables of the closures: \<open>chunks\<close> is
  \<open>None\<close> until \<open>modemThrottle\<close> allocates the array. \<open>now\<close> is the clock in
  milliseconds, \<open>timer\<close> the time at which the pending \<open>setTimeout (drip, _)\<close> fires (a
  response is finalised once, so it has at most one), \<open>out\<close> the log of events.
  \<open>closed_at\<close> is the time at which the client closes the underlying connection, if it
  does: from then on Node reports the response as destroyed.
\<close>

definition to_buffer :: "buffer_from \<Rightarrow> chunk \<Rightarrow> string option \<Rightarrow> buffer" where
  "to_buffer bf c encoding =
     (case c of Buf b \<Rightarrow> b
      | Str s \<Rightarrow> bf s (case encoding of None \<Rightarrow> ''utf8'' | Some e \<Rightarrow> if e = [] then ''utf8'' else e))"

definition emit :: "event \<Rightarrow> response \<Rightarrow> response" where
  "emit e r = r\<lparr>out := out r @ [(now r, e)]\<rparr>"

definition originalWrite :: "buffer \<Rightarrow> response \<Rightarrow> response" where
  "originalWrite b r = emit (Write b) r"

definition originalEnd :: "buffer option \<Rightarrow> response \<Rightarrow> response" where
  "originalEnd b r = emit (End b) r"

definition setTimeout :: "nat \<Rightarrow> response \<Rightarrow> response" where
  "setTimeout delay r = (emit (SetTimeout delay) r)\<lparr>timer := Some (now r + delay)\<rparr>"

subsection \<open>The drip\<close>

text \<open>
  \<open>body.slice (a, b)\<close> on non-negative integers: the bytes from index \<open>a\<close> up to, not
  including, index \<open>b\<close>, both clamped to the length; empty when \<open>b \<le> a\<close>.
\<close>

definition slice :: "'a list \<Rightarrow> nat \<Rightarrow> nat \<Rightarrow> 'a list" where
  "slice xs a b = take (b - a) (drop a xs)"

text \<open>One call of \<open>drip\<close> (lines 92 to 101).\<close>

definition drip :: "throttle \<Rightarrow> response \<Rightarrow> response" where
  "drip cfg r =
     (let end = min (offset r + chunk cfg) (length (body r));
          r1 = originalWrite (slice (body r) (offset r) end) r;
          r2 = r1\<lparr>offset := end\<rparr>
      in if offset r2 \<ge> length (body r2) then originalEnd None r2
         else setTimeout (interval cfg) r2)"

text \<open>
  The event loop: while a timer is pending, the clock moves to its time and \<open>drip\<close> runs.
  The result is the list of the states the response goes through, the first one being
  the state the loop starts in; \<open>None\<close> when the timers never stop.
\<close>

partial_function (option) run_timers :: "throttle \<Rightarrow> response \<Rightarrow> response list option" where
  "run_timers cfg r =
     (case timer r of
        None \<Rightarrow> Some [r]
      | Some t \<Rightarrow>
          Option.bind (run_timers cfg (drip cfg (r\<lparr>now := t, timer := None\<rparr>)))
            (\<lambda>h. Some (r # h)))"

subsection \<open>The wrapped methods\<close>

text \<open>
  The wrapped \<open>res.write\<close> (lines 71 to 76). \<open>if (chunk)\<close> is false for no chunk and for
  the empty string, true for every Buffer. The call returns \<open>true\<close>.
\<close>

definition truthy :: "chunk option \<Rightarrow> bool" where
  "truthy c = (case c of None \<Rightarrow> False | Some (Str s) \<Rightarrow> s \<noteq> [] | Some (Buf b) \<Rightarrow> True)"

definition chunk_length :: "chunk \<Rightarrow> nat" where
  "chunk_length c = (case c of Str s \<Rightarrow> length s | Buf b \<Rightarrow> length b)"

definition push :: "buffer \<Rightarrow> response \<Rightarrow> response" where
  "push b r = r\<lparr>chunks := Some (case chunks r of None \<Rightarrow> [b] | Some cs \<Rightarrow> cs @ [b])\<rparr>"

definition res_write :: "buffer_from \<Rightarrow> chunk option \<Rightarrow> string option \<Rightarrow> response \<Rightarrow> bool \<times> response" where
  "res_write bf c encoding r =
     (True, if truthy c then push (to_buffer bf (the c) encoding) r else r)"

text \<open>The wrapped \<open>res.end\<close> (lines 78 to 104).\<close>

definition res_end :: "throttle \<Rightarrow> buffer_from \<Rightarrow> chunk option \<Rightarrow> string option \<Rightarrow> response \<Rightarrow> response" where
  "res_end cfg bf c encoding r =
     (let r1 = (if truthy c \<and> chunk_length (the c) > 0
                then push (to_buffer bf (the c) encoding) r else r);
          r2 = r1\<lparr>body := concat (case chunks r1 of None \<Rightarrow> [] | Some cs \<Rightarrow> cs)\<rparr>
      in if length (body r2) = 0 then originalEnd None r2
         else setTimeout (latency cfg) (r2\<lparr>offset := 0\<rparr>))"

subsection \<open>Method calls, redirect and installation\<close>

text \<open>
  \<open>res.end (chunk, encoding)\<close> as a caller sees it: the method found in the slot runs.
  Node's own \<open>end\<close> sends the chunk it is given.
\<close>

definition call_end :: "throttle \<Rightarrow> buffer_from \<Rightarrow> chunk option \<Rightarrow> string option \<Rightarrow> response \<Rightarrow> response" where
  "call_end cfg bf c encoding r =
     (case end_impl r of
        Original \<Rightarrow> originalEnd (map_option (\<lambda>x. to_buffer bf x encoding) c) r
      | Throttled \<Rightarrow> res_end cfg bf c encoding r)"

text \<open>
  Express's \<open>res.redirect (url)\<close>, not part of server.js: it sets status 302 and the
  Location header and finishes the response with \<open>this.end (page)\<close>, where \<open>page\<close> is the
  short body Express writes for the redirect (none for a HEAD request).
\<close>

definition originalRedirect :: "throttle \<Rightarrow> buffer_from \<Rightarrow> string \<Rightarrow> chunk option \<Rightarrow> response \<Rightarrow> response" where
  "originalRedirect cfg bf target page r =
     call_end cfg bf page None (r\<lparr>statusCode := 302, location := Some target\<rparr>)"

text \<open>The \<open>res.redirect\<close> installed by the middleware (lines 60 to 65).\<close>

definition res_redirect :: "throttle \<Rightarrow> buffer_from \<Rightarrow> string \<Rightarrow> chunk option \<Rightarrow> response \<Rightarrow> response" where
  "res_redirect cfg bf target page r =
     originalRedirect cfg bf target page (r\<lparr>write_impl := Original, end_impl := Original\<rparr>)"

definition call_redirect :: "throttle \<Rightarrow> buffer_from \<Rightarrow> string \<Rightarrow> chunk option \<Rightarrow> response \<Rightarrow> response" where
  "call_redirect cfg bf target page r =
     (case redirect_impl r of
        Original \<Rightarrow> originalRedirect cfg bf target page r
      | Throttled \<Rightarrow> res_redirect cfg bf target page r)"

text \<open>
  Express's \<open>res.send (page)\<close> for a string, not part of server.js: it sets the headers
  and finishes the response with \<open>this.end (page, 'utf8')\<close>.
\<close>

definition send :: "throttle \<Rightarrow> buffer_from \<Rightarrow> string \<Rightarrow> response \<Rightarrow> response" where
  "send cfg bf page r = call_end cfg bf (Some (Str page)) (Some ''utf8'') r"

text \<open>
  A request: the parsed query string and the parsed form \<open>req.body\<close>. In both a
  parameter is a string or, when its key is repeated, an array of strings. \<open>req.body\<close> is
  \<open>None\<close> when no body was parsed and the property is left undefined.
\<close>

datatype qval = QStr string | QArr "string list"

datatype formval = FStr string | FArr "string list"

record request =
  query :: "string \<Rightarrow> qval option"
  form :: "(string \<Rightarrow> formval option) option"

text \<open>
  \<open>modemThrottle (req, res, next)\<close> (lines 52 to 107); \<open>modem\<close> is the value of
  \<open>MODEM_MODE\<close>, \<open>next\<close> the rest of the middleware chain.
\<close>

definition modemThrottle :: "bool \<Rightarrow> request \<Rightarrow> response \<Rightarrow> (response \<Rightarrow> 'a) \<Rightarrow> 'a" where
  "modemThrottle modem req res next =
     (if \<not> modem then next res
      else if query req ''turbo'' = Some (QStr ''1'') then next res
      else next (res\<lparr>redirect_impl := Throttled, chunks := Some [],
                     write_impl := Throttled, end_impl := Throttled\<rparr>))"

text \<open>The response as Express hands it to the first middleware, at time \<open>t\<close>.\<close>

definition fresh_response :: "nat \<Rightarrow> response" where
  "fresh_response t =
     \<lparr>write_impl = Original, end_impl = Original, redirect_impl = Original, chunks = None,
      body = [], offset = 0, now = t, timer = None, statusCode = 200, location = None,
      closed_at = None, out = []\<rparr>"

section \<open>The guestbook\<close>

text \<open>
  A JavaScript string is modelled by the list of its code units, a \<open>char\<close> standing for a
  code unit below 256; these include every character that the functions below inspect or
  insert. A call on a value that has no such method throws a \<open>TypeError\<close>; a function that
  can throw returns \<open>Inl TypeError\<close> then, and \<open>and_then\<close> passes the first throw on.
\<close>

datatype error = TypeError

definition and_then :: "error + 'a \<Rightarrow> ('a \<Rightarrow> error + 'b) \<Rightarrow> error + 'b" where
  "and_then x f = (case x of Inl e \<Rightarrow> Inl e | Inr v \<Rightarrow> f v)"

subsection \<open>escapeHtml and renderEntry\<close>

text \<open>
  A field of an entry read from the JSON file, as far as \<open>escapeHtml\<close> and \<open>renderEntry\<close>
  can tell values apart: missing or \<open>null\<close>; a string; another falsy value (\<open>0\<close>, \<open>false\<close>);
  another truthy value (an object, an array, \<open>true\<close>, a number other than 0), none of
  which has a method \<open>replace\<close>.
\<close>

datatype jsvalue = Nullish | JString string | JFalsy | JTruthy

definition truthy_value :: "jsvalue \<Rightarrow> bool" where
  "truthy_value v =
     (case v of Nullish \<Rightarrow> False | JString s \<Rightarrow> s \<noteq> [] | JFalsy \<Rightarrow> False | JTruthy \<Rightarrow> True)"

text \<open>\<open>str.replace (/c/g, rep)\<close> for a single character \<open>c\<close> and a replacement without \<open>$\<close>.\<close>

definition replace_all :: "char \<Rightarrow> string \<Rightarrow> string \<Rightarrow> string" where
  "replace_all c rep s = concat (map (\<lambda>x. if x = c then rep else [x]) s)"

text \<open>
  \<open>escapeHtml\<close> (lines 145 to 153): the empty string for every falsy value, a
  \<open>TypeError\<close> (\<open>str.replace\<close> is not a function) for a truthy value that is not a string.
\<close>

definition escapeHtml :: "jsvalue \<Rightarrow> error + string" where
  \<open>escapeHtml str =
     (if \<not> truthy_value str then Inr []
      else case str of
          JString s \<Rightarrow>
            Inr (replace_all (CHR 0x27) ''&#039;''
                  (replace_all (CHR 0x22) ''&quot;''
                    (replace_all (CHR ''>'') ''&gt;''
                      (replace_all (CHR ''<'') ''&lt;''
                        (replace_all (CHR ''&'') ''&amp;'' s)))))
        | _ \<Rightarrow> Inl TypeError)\<close>

text \<open>A guestbook entry as read from the JSON file.\<close>

record entry =
  name :: jsvalue
  url :: jsvalue
  message :: jsvalue
  favorite :: jsvalue
  date :: jsvalue

text \<open>
  \<open>renderEntry\<close> (lines 179 to 195), in the order in which JavaScript evaluates it:
  \<open>nameHtml\<close>, \<open>favHtml\<close>, then the template.
\<close>

definition renderEntry :: "entry \<Rightarrow> error + string" where
  \<open>renderEntry e =
     and_then
       (if truthy_value (url e)
        then and_then (escapeHtml (url e)) (\<lambda>u.
             and_then (escapeHtml (name e)) (\<lambda>n.
               Inr (''<a href="'' @ u @ ''">'' @ n @ ''</a>'')))
        else escapeHtml (name e))
       (\<lambda>nameHtml.
     and_then
       (if truthy_value (favorite e)
        then and_then (escapeHtml (favorite e)) (\<lambda>f.
               Inr (''<br><span style="font-size: 10px; color: #888;">Favorite game: ''
                    @ f @ ''</span>''))
        else Inr [])
       (\<lambda>favHtml.
     and_then (escapeHtml (date e)) (\<lambda>d.
     and_then (escapeHtml (message e)) (\<lambda>m.
       Inr (''  <div class="gb-entry">\<newline>    <span class="gb-date">'' @ d
            @ ''</span>\<newline>    <span class="gb-name">'' @ nameHtml
            @ ''</span>\<newline>    <div class="gb-message">\<newline>      ''
            @ m @ favHtml
            @ ''\<newline>    </div>\<newline>  </div>\<newline>'')))))\<close>

subsection \<open>The favorite game\<close>

text \<open>
  A field of the form used as a property name: a string is itself, an array is its
  elements joined by commas.
\<close>

fun join :: "string list \<Rightarrow> string" where
  "join [] = []"
| "join [x] = x"
| "join (x # y # ys) = x @ '','' @ join (y # ys)"

definition property_key :: "formval \<Rightarrow> string" where
  "property_key v = (case v of FStr s \<Rightarrow> s | FArr xs \<Rightarrow> join xs)"

text \<open>
  \<open>favoriteLabel\<close> (lines 169 to 176). \<open>map[value]\<close> finds the three keys of the object
  literal and also what the literal inherits from \<open>Object.prototype\<close>: the object itself
  under \<open>__proto__\<close>, and a function under each name of \<open>inherited_functions\<close>. All of these
  are truthy, so they are what \<open>map[value] || value || ''\<close> returns; for any other key it
  returns \<open>value\<close>, which is a string (the empty one included) or an array.
\<close>

datatype label = Label string | LabelArray "string list" | LabelFunction | LabelObject

definition inherited_functions :: "string list" where
  "inherited_functions =
     [''constructor'', ''__defineGetter__'', ''__defineSetter__'', ''hasOwnProperty'',
      ''__lookupGetter__'', ''__lookupSetter__'', ''isPrototypeOf'', ''propertyIsEnumerable'',
      ''toString'', ''valueOf'', ''toLocaleString'']"

definition favoriteLabel :: "formval \<Rightarrow> label" where
  \<open>favoriteLabel v =
     (if property_key v = ''somi'' then Label ''The Secret of Monkey Island''
      else if property_key v = ''mi2'' then Label ''Monkey Island 2: LeChuck's Revenge''
      else if property_key v = ''comi'' then Label ''The Curse of Monkey Island''
      else if property_key v = ''__proto__'' then LabelObject
      else if property_key v \<in> set inherited_functions then LabelFunction
      else case v of FStr s \<Rightarrow> Label s | FArr xs \<Rightarrow> LabelArray xs)\<close>

text \<open>
  What \<open>JSON.stringify\<close> writes for the favorite of a new entry and \<open>JSON.parse\<close> reads
  back: a string as it is, an array as an array, \<open>Object.prototype\<close> as the object \<open>{}\<close>;
  a property whose value is a function is left out.
\<close>

definition to_json :: "label \<Rightarrow> jsvalue" where
  "to_json l =
     (case l of Label s \<Rightarrow> JString s | LabelArray xs \<Rightarrow> JTruthy
      | LabelFunction \<Rightarrow> Nullish | LabelObject \<Rightarrow> JTruthy)"

subsection \<open>Signing the guestbook\<close>

text \<open>
  \<open>String.prototype.trim\<close>: the white space and line terminators among the code units
  below 256 are TAB, LF, VT, FF, CR, SP and NBSP.
\<close>

definition is_space :: "char \<Rightarrow> bool" where
  "is_space c = (c \<in> {CHR 0x09, CHR 0x0A, CHR 0x0B, CHR 0x0C, CHR 0x0D, CHR 0x20, CHR 0xA0})"

definition trim :: "string \<Rightarrow> string" where
  "trim s = rev (dropWhile is_space (rev (dropWhile is_space s)))"

text \<open>
  \<open>(req.body.x || '').trim ()\<close>: a missing field and the empty string give \<open>''\<close>; an array
  is truthy and has no method \<open>trim\<close>. \<open>req.body.x || ''\<close> alone keeps the array.
\<close>

definition text_field :: "formval option \<Rightarrow> error + string" where
  "text_field v =
     (case v of None \<Rightarrow> Inr [] | Some (FStr s) \<Rightarrow> Inr (trim s) | Some (FArr xs) \<Rightarrow> Inl TypeError)"

definition or_empty :: "formval option \<Rightarrow> formval" where
  "or_empty v = (case v of None \<Rightarrow> FStr [] | Some x \<Rightarrow> x)"

text \<open>
  The entries file, as the list of the entries that \<open>JSON.parse\<close> reads from it: \<open>None\<close>
  when it cannot be read or parsed, in which case \<open>readEntries\<close> returns the empty array.
\<close>

definition readEntries :: "entry list option \<Rightarrow> entry list" where
  "readEntries file = (case file of None \<Rightarrow> [] | Some es \<Rightarrow> es)"

definition writeEntries :: "entry list \<Rightarrow> entry list option" where
  "writeEntries es = Some es"

definition page_missing :: string where
  \<open>page_missing =
     ''<html><body style="background:#000;color:#dd5500;font-family:Comic Sans MS,Verdana;text-align:center;padding:40px;">''
     @ ''<h2>Arrr! Something went wrong!</h2>''
     @ ''<p style="color:#ccc;">You must provide both a name and a message, ye scurvy dog!</p>''
     @ ''<p><a href="/guestbook.html" style="color:#6677cc;">Back to the Guestbook</a></p>''
     @ ''</body></html>''\<close>

definition page_too_long :: string where
  \<open>page_too_long =
     ''<html><body style="background:#000;color:#dd5500;font-family:Comic Sans MS,Verdana;text-align:center;padding:40px;">''
     @ ''<h2>Arrr! Too many words!</h2>''
     @ ''<p style="color:#ccc;">Keep your name under 50 characters and your message under 1000, matey!</p>''
     @ ''<p><a href="/guestbook.html" style="color:#6677cc;">Back to the Guestbook</a></p>''
     @ ''</body></html>''\<close>

text \<open>
  The handler of \<open>POST /sign-guestbook\<close> (lines 293 to 343), on the response and the
  entries file. \<open>today\<close> is \<open>formatDate (new Date ())\<close>, \<open>page\<close> the body Express writes
  for the redirect. Reading a field of an undefined \<open>req.body\<close> throws, as does \<open>trim\<close> on
  an array; the handler catches nothing, so the throw leaves it (Express then answers
  with status 500).
\<close>

definition sign_guestbook ::
  "throttle \<Rightarrow> buffer_from \<Rightarrow> string \<Rightarrow> chunk option \<Rightarrow> request \<Rightarrow> entry list option \<Rightarrow> response
     \<Rightarrow> error + response \<times> entry list option" where
  \<open>sign_guestbook cfg bf today page req file res =
     (case form req of
        None \<Rightarrow> Inl TypeError
      | Some params \<Rightarrow>
          and_then (text_field (params ''name'')) (\<lambda>name.
          and_then (text_field (params ''message'')) (\<lambda>message.
          and_then (text_field (params ''url'')) (\<lambda>url.
            (let favorite = or_empty (params ''favorite'')
             in if name = [] \<or> message = [] then
                  Inr (send cfg bf page_missing (res\<lparr>statusCode := 400\<rparr>), file)
                else if length name > 50 \<or> length message > 1000 then
                  Inr (send cfg bf page_too_long (res\<lparr>statusCode := 400\<rparr>), file)
                else
                  (let cleanUrl = (if url \<noteq> [] \<and> url \<noteq> ''http://'' \<and> url \<noteq> ''https://''
                                   then url else []);
                       entry = \<lparr>name = JString name, url = JString cleanUrl,
                                message = JString message,
                                favorite = to_json (favoriteLabel favorite),
                                date = JString today\<rparr>;
                       entries = readEntries file @ [entry]
                   in Inr (call_redirect cfg bf ''/guestbook.html'' page res,
                           writeEntries entries)))))))\<close>

text \<open>
  The request as the application serves it: \<open>app.use (modemThrottle)\<close> (line 110) comes
  before the route, and the handler is the rest of the chain.
\<close>

definition post_sign_guestbook ::
  "bool \<Rightarrow> throttle \<Rightarrow> buffer_from \<Rightarrow> string \<Rightarrow> chunk option \<Rightarrow> request \<Rightarrow> entry list option \<Rightarrow> response
     \<Rightarrow> error + response \<times> entry list option" where
  "post_sign_guestbook modem cfg bf today page req file res =
     modemThrottle modem req res (sign_guestbook cfg bf today page req file)"

section \<open>Observations on a run\<close>

text \<open>\<open>ceil (l / c)\<close> on natural numbers.\<close>

definition ceil_div :: "nat \<Rightarrow> nat \<Rightarrow> nat" where
  "ceil_div l c = (l + c - 1) div c"

text \<open>The buffers written, the times of the writes, of the calls of \<open>end\<close>, and the delays armed.\<close>

fun writes :: "(nat \<times> event) list \<Rightarrow> buffer list" where
  "writes [] = []"
| "writes ((t, Write b) # es) = b # writes es"
| "writes (_ # es) = writes es"

fun write_times :: "(nat \<times> event) list \<Rightarrow> nat list" where
  "write_times [] = []"
| "write_times ((t, Write b) # es) = t # write_times es"
| "write_times (_ # es) = write_times es"

fun end_times :: "(nat \<times> event) list \<Rightarrow> nat list" where
  "end_times [] = []"
| "end_times ((t, End b) # es) = t # end_times es"
| "end_times (_ # es) = end_times es"

fun delays :: "(nat \<times> event) list \<Rightarrow> nat list" where
  "delays [] = []"
| "delays ((t, SetTimeout d) # es) = d # delays es"
| "delays (_ # es) = delays es"

text \<open>
  What the \<open>k\<close>-th call of \<open>drip\<close> (counted from 0) does on the body \<open>b\<close> when the first call
  is at time \<open>t0\<close>, and the state reached from \<open>r\<close>, which has seen \<open>j\<close> calls, once \<open>k\<close> calls
  have run. They describe the run in closed form.
\<close>

definition tick_events :: "throttle \<Rightarrow> buffer \<Rightarrow> nat \<Rightarrow> nat \<Rightarrow> (nat \<times> event) list" where
  "tick_events cfg b t0 k =
     [(t0 + k * interval cfg, Write (slice b (k * chunk cfg) (min (Suc k * chunk cfg) (length b)))),
      (t0 + k * interval cfg,
       if length b \<le> Suc k * chunk cfg then End None else SetTimeout (interval cfg))]"

definition after_ticks :: "throttle \<Rightarrow> nat \<Rightarrow> nat \<Rightarrow> response \<Rightarrow> nat \<Rightarrow> response" where
  "after_ticks cfg t0 j r k =
     r\<lparr>offset := min (k * chunk cfg) (length (body r)),
       now := (if k = j then now r else t0 + (k - 1) * interval cfg),
       timer := (if length (body r) \<le> k * chunk cfg then None else Some (t0 + k * interval cfg)),
       out := out r @ concat (map (tick_events cfg (body r) t0) [j..<k])\<rparr>"

text \<open>
  The writes and the armings of a timer that a response has made after its connection
  was closed.
\<close>

fun is_attempt :: "event \<Rightarrow> bool" where
  "is_attempt (Write b) = True"
| "is_attempt (SetTimeout d) = True"
| "is_attempt (End b) = False"

definition dead_attempts :: "response \<Rightarrow> (nat \<times> event) list" where
  "dead_attempts r =
     (case closed_at r of
        None \<Rightarrow> []
      | Some c \<Rightarrow> filter (\<lambda>(t, e). c < t \<and> is_attempt e) (out r))"

text \<open>A log with the content of every buffer forgotten: times, kinds and sizes remain.\<close>

fun blank :: "event \<Rightarrow> event" where
  "blank (Write b) = Write (replicate (length b) 0)"
| "blank (End b) = End (map_option (\<lambda>x. replicate (length x) 0) b)"
| "blank (SetTimeout d) = SetTimeout d"

definition schedule :: "(nat \<times> event) list \<Rightarrow> (nat \<times> event) list" where
  "schedule es = map (\<lambda>(t, e). (t, blank e)) es"

text \<open>The log at the end of a run.\<close>

definition log_of :: "response list \<Rightarrow> (nat \<times> event) list" where
  "log_of h = out (last h)"

text \<open>A handler's calls of the wrapped \<open>write\<close>, one after the other.\<close>

definition write_all :: "buffer_from \<Rightarrow> (chunk option \<times> string option) list \<Rightarrow> response \<Rightarrow> response" where
  "write_all bf ws r = fold (\<lambda>(c, encoding) r'. snd (res_write bf c encoding r')) ws r"

text \<open>
  The characters that \<open>escapeHtml\<close> must not let through, the entities it writes, and the
  property that every \<open>&\<close> of a string begins one of them. \<open>escape_char\<close> is the escape of
  a single character, \<open>escaped\<close> the escape of a value on which \<open>escapeHtml\<close> does not throw.
\<close>

definition special :: "char \<Rightarrow> bool" where
  "special c = (c = CHR ''<'' \<or> c = CHR ''>'' \<or> c = CHR 0x22 \<or> c = CHR 0x27)"

definition entities :: "string list" where
  "entities = [''&amp;'', ''&lt;'', ''&gt;'', ''&quot;'', ''&#039;'']"

fun amps_ok :: "string \<Rightarrow> bool" where
  "amps_ok [] = True"
| "amps_ok (c # cs) =
     ((c = CHR ''&'' \<longrightarrow> (\<exists>e \<in> set entities. take (length e) (c # cs) = e)) \<and> amps_ok cs)"

definition escape_char :: "char \<Rightarrow> string" where
  "escape_char c =
     (if c = CHR ''&'' then ''&amp;''
      else if c = CHR ''<'' then ''&lt;''
      else if c = CHR ''>'' then ''&gt;''
      else if c = CHR 0x22 then ''&quot;''
      else if c = CHR 0x27 then ''&#039;''
      else [c])"

definition escaped :: "jsvalue \<Rightarrow> string" where
  "escaped v = (case v of JString s \<Rightarrow> concat (map escape_char s) | _ \<Rightarrow> [])"

text \<open>
  Inputs for the examples: an encoder of one byte per code unit, a request without
  parameters, one with \<open>?turbo=1\<close>, and the response after the middleware has wrapped it.
\<close>

definition latin1 :: buffer_from where
  "latin1 s encoding = map (\<lambda>c. of_nat (of_char c)) s"

definition plain_request :: request where
  "plain_request = \<lparr>query = (\<lambda>k. None), form = Some (\<lambda>k. None)\<rparr>"

definition turbo_request :: request where
  "turbo_request =
     \<lparr>query = (\<lambda>k. if k = ''turbo'' then Some (QStr ''1'') else None), form = Some (\<lambda>k. None)\<rparr>"

definition blank_message_request :: request where
  "blank_message_request =
     \<lparr>query = (\<lambda>k. None),
      form = Some (\<lambda>k. if k = ''name'' then Some (FStr ''Guybrush'')
                       else if k = ''message'' then Some (FStr '' \<newline> '') else None)\<rparr>"

text \<open>The body \<open>name=a&name=b&message=\<close>: the name twice, the message empty.\<close>

definition repeated_name_request :: request where
  "repeated_name_request =
     \<lparr>query = (\<lambda>k. None),
      form = Some (\<lambda>k. if k = ''name'' then Some (FArr [''a'', ''b''])
                       else if k = ''message'' then Some (FStr []) else None)\<rparr>"

text \<open>A request whose body was not parsed.\<close>

definition unparsed_request :: request where
  "unparsed_request = \<lparr>query = (\<lambda>k. None), form = None\<rparr>"

definition hostile_entry :: entry where
  "hostile_entry =
     \<lparr>name = JString ''<script>'', url = JString ''javascript:x'',
      message = JString ''Tom & Jerry's'', favorite = Nullish,
      date = JString ''01/02/1999''\<rparr>"

definition polite_entry :: entry where
  "polite_entry =
     \<lparr>name = JString ''Elaine'', url = JString ''http://melee.island'',
      message = JString ''Hello'', favorite = JString [], date = Nullish\<rparr>"

definition wrapped_response :: "nat \<Rightarrow> response" where
  "wrapped_response t = modemThrottle True plain_request (fresh_response t) (\<lambda>r. r)"

section \<open>The drip chain in closed form\<close>

subsection \<open>Rounding up\<close>

lemma ceil_div_le_iff: 
  assumes "0 < c" shows "ceil_div l c \<le> k \<longleftrightarrow> l \<le> k * c"
proof -
  have "ceil_div l c \<le> k \<longleftrightarrow> (l + c - 1) div c < Suc k"
    by (simp add: ceil_div_def less_Suc_eq_le)
  also have "\<dots> \<longleftrightarrow> l + c - 1 < Suc k * c"
    using assms by (simp add: div_less_iff_less_mult)
  also have "\<dots> \<longleftrightarrow> l \<le> k * c"
    using assms by auto
  finally show ?thesis .
qed

subsection \<open>One call of drip, and the run of the timers\<close>

lemma after_ticks_self:
  "offset r = j * chunk cfg \<Longrightarrow> j * chunk cfg < length (body r) \<Longrightarrow>
   timer r = Some (t0 + j * interval cfg) \<Longrightarrow> after_ticks cfg t0 j r j = r"
  by (simp add: after_ticks_def)

lemma drip_last:
  assumes "offset r = j * chunk cfg" "length (body r) \<le> Suc j * chunk cfg"
  shows "drip cfg (r\<lparr>now := t0 + j * interval cfg, timer := None\<rparr>) = after_ticks cfg t0 j r (Suc j)"
  using assms
  by (auto simp add: drip_def after_ticks_def tick_events_def originalWrite_def originalEnd_def
      emit_def Let_def min_def add_ac)

lemma drip_rearm:
  assumes "offset r = j * chunk cfg" "Suc j * chunk cfg < length (body r)"
  shows "drip cfg (r\<lparr>now := t0 + j * interval cfg, timer := None\<rparr>) = after_ticks cfg t0 j r (Suc j)"
  using assms
  by (auto simp add: drip_def after_ticks_def tick_events_def originalWrite_def setTimeout_def
      emit_def Let_def min_def add_ac)

lemma after_ticks_shift:
  assumes "j < k"
  shows "after_ticks cfg t0 (Suc j) (after_ticks cfg t0 j r (Suc j)) k = after_ticks cfg t0 j r k"
  using assms
  by (auto simp add: after_ticks_def upt_conv_Cons)

lemma run_timers_closed:
  assumes "0 < chunk cfg"
  shows "offset r = j * chunk cfg \<Longrightarrow> j * chunk cfg < length (body r) \<Longrightarrow>
         timer r = Some (t0 + j * interval cfg) \<Longrightarrow>
         run_timers cfg r =
           Some (map (after_ticks cfg t0 j r) [j..<Suc (ceil_div (length (body r)) (chunk cfg))])"
proof (induction "ceil_div (length (body r)) (chunk cfg) - j" arbitrary: j r)
  case 0
  then have "ceil_div (length (body r)) (chunk cfg) \<le> j" by simp
  with assms have "length (body r) \<le> j * chunk cfg" by (simp add: ceil_div_le_iff)
  with 0 show ?case by simp
next
  case (Suc d)
  let ?n = "ceil_div (length (body r)) (chunk cfg)"
  let ?r' = "after_ticks cfg t0 j r (Suc j)"
  have jn: "j < ?n" using Suc.hyps(2) by simp
  have step: "run_timers cfg r = Option.bind (run_timers cfg ?r') (\<lambda>h. Some (r # h))"
  proof (cases "length (body r) \<le> Suc j * chunk cfg")
    case True
    then show ?thesis using Suc.prems
      by (subst run_timers.simps) (simp add: drip_last)
  next
    case False
    then show ?thesis using Suc.prems
      by (subst run_timers.simps) (simp add: drip_rearm)
  qed
  have body': "body ?r' = body r" by (simp add: after_ticks_def)
  show ?case
  proof (cases "length (body r) \<le> Suc j * chunk cfg")
    case True
    then have "?n \<le> Suc j" using assms by (simp add: ceil_div_le_iff)
    with jn have n: "?n = Suc j" by simp
    have "timer ?r' = None" using True by (simp add: after_ticks_def)
    then have "run_timers cfg ?r' = Some [?r']"
      by (subst run_timers.simps) simp
    then show ?thesis using step n Suc.prems
      by (simp add: after_ticks_self upt_conv_Cons)
  next
    case False
    then have lt: "Suc j * chunk cfg < length (body r)" by simp
    have "\<not> ?n \<le> Suc j" using assms False by (simp add: ceil_div_le_iff)
    then have sn: "Suc j < ?n" by simp
    have "run_timers cfg ?r' =
        Some (map (after_ticks cfg t0 (Suc j) ?r') [Suc j..<Suc (ceil_div (length (body ?r')) (chunk cfg))])"
    proof (rule Suc.hyps(1))
      show "d = ceil_div (length (body ?r')) (chunk cfg) - Suc j"
        using Suc.hyps(2) by (simp add: body')
      show "offset ?r' = Suc j * chunk cfg" using lt by (simp add: after_ticks_def)
      show "Suc j * chunk cfg < length (body ?r')" using lt by (simp add: body')
      show "timer ?r' = Some (t0 + Suc j * interval cfg)" using lt by (simp add: after_ticks_def)
    qed
    also have "map (after_ticks cfg t0 (Suc j) ?r') [Suc j..<Suc (ceil_div (length (body ?r')) (chunk cfg))]
        = map (after_ticks cfg t0 j r) [Suc j..<Suc ?n]"
      by (simp add: body' after_ticks_shift del: upt_Suc)
    finally show ?thesis using step jn Suc.prems
      by (simp add: after_ticks_self upt_conv_Cons del: upt_Suc)
  qed
qed

subsection \<open>The run that the wrapped end starts\<close>

lemma res_end_nonempty:
  assumes "r1 = res_end cfg bf c enc r" "body r1 \<noteq> []"
  shows "offset r1 = 0" "timer r1 = Some (now r + latency cfg)"
        "out r1 = out r @ [(now r, SetTimeout (latency cfg))]" "now r1 = now r"
  using assms
  by (auto simp add: res_end_def Let_def setTimeout_def emit_def originalEnd_def push_def split: if_splits)

lemma res_end_run:
  assumes "0 < chunk cfg" "r1 = res_end cfg bf c enc r" "body r1 \<noteq> []"
  shows "run_timers cfg r1 =
     Some (map (after_ticks cfg (now r + latency cfg) 0 r1) [0..<Suc (ceil_div (length (body r1)) (chunk cfg))])"
  using run_timers_closed[OF assms(1), of r1 0 "now r + latency cfg"] res_end_nonempty[OF assms(2,3)] assms(3)
  by simp

lemma ceil_div_pos: "0 < c \<Longrightarrow> 0 < l \<Longrightarrow> 0 < ceil_div l c"
  using ceil_div_le_iff[of c l 0] by simp

lemma last_run:
  "last (map (after_ticks cfg t0 0 r1) [0..<Suc n]) = after_ticks cfg t0 0 r1 n"
  by simp

subsection \<open>The pieces and the cursor\<close>

lemma writes_append: "writes (xs @ ys) = writes xs @ writes ys"
  by (induction xs rule: writes.induct) simp_all

lemma writes_ticks:
  "writes (concat (map (tick_events cfg b t0) [0..<n])) =
     map (\<lambda>k. slice b (k * chunk cfg) (min (Suc k * chunk cfg) (length b))) [0..<n]"
  by (induction n) (simp_all add: writes_append tick_events_def)

lemma concat_pieces:
  "concat (map (\<lambda>k. slice b (k * c) (min (Suc k * c) (length b))) [0..<n]) = take (n * c) b"
proof (induction n)
  case 0
  then show ?case by simp
next
  case (Suc n)
  have "slice b (n * c) (min (Suc n * c) (length b)) = take c (drop (n * c) b)"
    by (auto simp add: slice_def min_def)
  moreover have "take (Suc n * c) b = take (n * c + c) b"
    by (simp add: add.commute)
  moreover have "take (n * c + c) b = take (n * c) b @ take c (drop (n * c) b)"
    by (rule take_add)
  ultimately show ?case using Suc by simp
qed

lemma pieces_concat:
  assumes "0 < c"
  shows "concat (map (\<lambda>k. slice b (k * c) (min (Suc k * c) (length b))) [0..<ceil_div (length b) c]) = b"
proof -
  have "length b \<le> ceil_div (length b) c * c"
    using ceil_div_le_iff[OF assms, of "length b" "ceil_div (length b) c"] by simp
  then show ?thesis by (simp add: concat_pieces del: mult_Suc)
qed

lemma piece_full:
  assumes "0 < c" "Suc k < ceil_div (length b) c"
  shows "length (slice b (k * c) (min (Suc k * c) (length b))) = c"
proof -
  have "\<not> length b \<le> Suc k * c"
    using ceil_div_le_iff[OF assms(1), of "length b" "Suc k"] assms(2) by simp
  then have "min (Suc k * c) (length b) = k * c + c" and "c \<le> length b - k * c"
    by simp_all
  then show ?thesis by (simp add: slice_def)
qed

lemma offsets_run:
  "map offset (map (after_ticks cfg t0 0 r1) [0..<Suc n]) =
     map (\<lambda>k. min (k * chunk cfg) (length (body r1))) [0..<Suc n]"
  by (simp add: after_ticks_def del: upt_Suc)

lemma sorted_offsets: "sorted (map (\<lambda>k. min (k * c) (l::nat)) [0..<m])"
  by (induction m) (auto simp add: sorted_append intro: min.coboundedI1 mult_le_mono1)

lemma count_offsets:
  assumes "0 < c" "0 < l"
  shows "count_list (map (\<lambda>k. min (k * c) l) [0..<Suc (ceil_div l c)]) l = 1"
proof -
  have "min (k * c) l \<noteq> l" if "k < ceil_div l c" for k
  proof -
    have "\<not> l \<le> k * c" using ceil_div_le_iff[OF assms(1), of l k] that by simp
    then show ?thesis by simp
  qed
  then have "count_list (map (\<lambda>k. min (k * c) l) [0..<ceil_div l c]) l = 0"
    by (fastforce simp add: count_list_0_iff)
  moreover have "min (ceil_div l c * c) l = l"
    using ceil_div_le_iff[OF assms(1), of l "ceil_div l c"] by simp
  ultimately show ?thesis by simp
qed

subsection \<open>The configured values\<close>

lemma server_throttle_values:
  "chunk server_throttle = 350" "interval server_throttle = 50" "latency server_throttle = 120"
  by (simp_all add: server_throttle_def configure_def chunk_size_def bytes_per_sec_def
      MODEM_BPS_def CHUNK_INTERVAL_def MODEM_LATENCY_def)

lemma CHUNK_SIZE_value: "CHUNK_SIZE = 350"
  by (simp add: CHUNK_SIZE_def chunk_size_def MODEM_BYTES_PER_SEC_def bytes_per_sec_def
      MODEM_BPS_def CHUNK_INTERVAL_def)

subsection \<open>Times and delays\<close>

lemma write_times_append: "write_times (xs @ ys) = write_times xs @ write_times ys"
  by (induction xs rule: write_times.induct) simp_all

lemma end_times_append: "end_times (xs @ ys) = end_times xs @ end_times ys"
  by (induction xs rule: end_times.induct) simp_all

lemma delays_append: "delays (xs @ ys) = delays xs @ delays ys"
  by (induction xs rule: delays.induct) simp_all

lemma write_times_ticks:
  "write_times (concat (map (tick_events cfg b t0) [0..<n])) =
     map (\<lambda>k. t0 + k * interval cfg) [0..<n]"
  by (induction n) (simp_all add: write_times_append tick_events_def)

lemma rearming_ticks:
  assumes "0 < chunk cfg"
  shows "m < ceil_div (length b) (chunk cfg) \<Longrightarrow>
         delays (concat (map (tick_events cfg b t0) [0..<m])) = replicate m (interval cfg) \<and>
         end_times (concat (map (tick_events cfg b t0) [0..<m])) = []"
proof (induction m)
  case 0
  then show ?case by simp
next
  case (Suc m)
  then have "\<not> length b \<le> Suc m * chunk cfg"
    using ceil_div_le_iff[OF assms, of "length b" "Suc m"] by simp
  with Suc show ?case
    by (simp add: delays_append end_times_append tick_events_def replicate_append_same)
qed

lemma final_tick:
  assumes "0 < chunk cfg" "ceil_div (length b) (chunk cfg) = Suc m"
  shows "delays (concat (map (tick_events cfg b t0) [0..<Suc m])) = replicate m (interval cfg)"
    and "end_times (concat (map (tick_events cfg b t0) [0..<Suc m])) = [t0 + m * interval cfg]"
proof -
  have "length b \<le> Suc m * chunk cfg"
    using ceil_div_le_iff[OF assms(1), of "length b" "Suc m"] assms(2) by simp
  moreover have "m < ceil_div (length b) (chunk cfg)" using assms(2) by simp
  ultimately show "delays (concat (map (tick_events cfg b t0) [0..<Suc m])) = replicate m (interval cfg)"
    and "end_times (concat (map (tick_events cfg b t0) [0..<Suc m])) = [t0 + m * interval cfg]"
    using rearming_ticks[OF assms(1), of m b t0]
    by (simp_all add: delays_append end_times_append tick_events_def)
qed

subsection \<open>Evaluating a run on a given response\<close>

lemmas run_defs = res_end_def wrapped_response_def modemThrottle_def plain_request_def
  fresh_response_def truthy_def chunk_length_def push_def to_buffer_def Let_def
  setTimeout_def emit_def latin1_def originalEnd_def originalWrite_def

lemma run_timers_idle: "timer r = None \<Longrightarrow> run_timers cfg r = Some [r]"
  by (subst run_timers.simps) simp

lemma run_timers_fire:
  "timer r = Some t \<Longrightarrow>
   run_timers cfg r =
     Option.bind (run_timers cfg (drip cfg (r\<lparr>now := t, timer := None\<rparr>))) (\<lambda>h. Some (r # h))"
  by (subst run_timers.simps) simp

subsection \<open>Writes before a redirect\<close>

lemma write_all_chunks: "\<exists>cs. write_all bf ws r = r\<lparr>chunks := cs\<rparr>"
proof (induction ws arbitrary: r)
  case Nil
  have "write_all bf [] r = r\<lparr>chunks := chunks r\<rparr>" by (simp add: write_all_def)
  then show ?case by blast
next
  case (Cons w ws)
  obtain c e where w: "w = (c, e)" by (cases w)
  obtain cs0 where s: "snd (res_write bf c e r) = r\<lparr>chunks := cs0\<rparr>"
    by (cases "truthy c") (auto simp add: res_write_def push_def intro: that[of "chunks r"])
  from Cons[of "r\<lparr>chunks := cs0\<rparr>"] obtain cs where "write_all bf ws (r\<lparr>chunks := cs0\<rparr>) = r\<lparr>chunks := cs\<rparr>"
    by auto
  then have "write_all bf (w # ws) r = r\<lparr>chunks := cs\<rparr>"
    using w s by (simp add: write_all_def)
  then show ?case by blast
qed

subsection \<open>The schedule depends on the size only\<close>

lemma schedule_append: "schedule (xs @ ys) = schedule xs @ schedule ys"
  by (simp add: schedule_def)

lemma blank_slice: "length b = length b' \<Longrightarrow> blank (Write (slice b i j)) = blank (Write (slice b' i j))"
  by (simp add: slice_def)

lemma schedule_tick:
  assumes "length b = length b'"
  shows "schedule (tick_events cfg b t0 k) = schedule (tick_events cfg b' t0 k)"
  unfolding schedule_def tick_events_def
  using blank_slice[OF assms] assms by (simp del: blank.simps)


lemma schedule_ticks:
  assumes "length b = length b'"
  shows "schedule (concat (map (tick_events cfg b t0) [0..<n])) =
         schedule (concat (map (tick_events cfg b' t0) [0..<n]))"
proof (induction n)
  case 0
  show ?case by simp
next
  case (Suc n)
  then show ?case
    by (simp add: schedule_append schedule_tick[OF assms])
qed

lemma res_end_empty:
  assumes "r1 = res_end cfg bf c enc r" and "body r1 = []"
  shows "out r1 = out r @ [(now r, End None)]" and "timer r1 = timer r" and "now r1 = now r"
  using assms
  by (auto simp add: res_end_def Let_def originalEnd_def emit_def push_def setTimeout_def
      split: if_splits)

lemma res_end_log:
  assumes "0 < chunk cfg" and "r1 = res_end cfg bf c enc r" and "timer r = None"
  shows "map_option log_of (run_timers cfg r1) =
     Some (out r @
       (if body r1 = [] then [(now r, End None)]
        else (now r, SetTimeout (latency cfg)) #
             concat (map (tick_events cfg (body r1) (now r + latency cfg))
                       [0..<ceil_div (length (body r1)) (chunk cfg)])))"
proof (cases "body r1 = []")
  case True
  then have "run_timers cfg r1 = Some [r1]"
    using res_end_empty(2)[OF assms(2) True] assms(3) by (simp add: run_timers_idle)
  then show ?thesis
    using True res_end_empty(1)[OF assms(2) True] by (simp add: log_of_def)
next
  case False
  have "out (last (map (after_ticks cfg (now r + latency cfg) 0 r1)
                 [0..<Suc (ceil_div (length (body r1)) (chunk cfg))])) =
        out r1 @ concat (map (tick_events cfg (body r1) (now r + latency cfg))
                       [0..<ceil_div (length (body r1)) (chunk cfg)])"
    by (simp only: last_run) (simp add: after_ticks_def)
  then show ?thesis
    using False res_end_run[OF assms(1,2) False] res_end_nonempty(3)[OF assms(2) False]
    by (simp add: log_of_def)
qed


lemma same_size_same_schedule:
  assumes "0 < chunk cfg"
    and "r1 = res_end cfg bf c enc r" and "timer r = None"
    and "r2 = res_end cfg bf' c' enc' r'" and "timer r' = None"
    and "length (body r1) = length (body r2)" and "now r = now r'" and "out r = out r'"
  shows "map_option (schedule \<circ> log_of) (run_timers cfg r1) =
         map_option (schedule \<circ> log_of) (run_timers cfg r2)"
proof -
  have e: "body r1 = [] \<longleftrightarrow> body r2 = []" using assms(6) by auto
  have "map_option schedule (map_option log_of (run_timers cfg r1)) =
        map_option schedule (map_option log_of (run_timers cfg r2))"
    unfolding res_end_log[OF assms(1,2,3)] res_end_log[OF assms(1,4,5)]
    using e schedule_ticks[OF assms(6), of cfg "now r' + latency cfg"] assms(6,7,8)
    by (simp add: schedule_append schedule_def)
  then show ?thesis by (simp add: option.map_comp)
qed

subsection \<open>The error page\<close>

lemma res_end_statusCode: "statusCode (res_end cfg bf c enc r) = statusCode r"
  by (simp add: res_end_def Let_def originalEnd_def emit_def push_def setTimeout_def)

lemma call_end_statusCode: "statusCode (call_end cfg bf c enc r) = statusCode r"
  by (cases "end_impl r") (simp_all add: call_end_def res_end_statusCode originalEnd_def emit_def)

lemma page_missing_nonempty: "page_missing \<noteq> []"
  by (simp add: page_missing_def)

lemma res_end_page_body:
  assumes "chunks r = Some []" and "page \<noteq> []"
  shows "body (res_end cfg bf (Some (Str page)) (Some ''utf8'') r) = bf page ''utf8''"
  using assms
  by (simp add: res_end_def Let_def originalEnd_def emit_def push_def setTimeout_def
      truthy_def chunk_length_def to_buffer_def)

subsection \<open>A chunk size of zero\<close>

lemma drip_stalls:
  assumes "chunk cfg = 0" and "offset r < length (body r)"
  shows "timer (drip cfg r) \<noteq> None \<and> offset (drip cfg r) = offset r \<and> body (drip cfg r) = body r"
  using assms by (simp add: drip_def Let_def originalWrite_def setTimeout_def emit_def)

lemma run_timers_stalls:
  assumes "run_timers cfg r = Some h"
  shows "\<not> (chunk cfg = 0 \<and> timer r \<noteq> None \<and> offset r < length (body r))"
proof (rule run_timers.raw_induct
    [where P = "\<lambda>c s y. \<not> (chunk c = 0 \<and> timer s \<noteq> None \<and> offset s < length (body s))",
     OF _ assms])
  fix run :: "throttle \<Rightarrow> response \<Rightarrow> response list option" and c s y
  assume IH: "\<And>c s y. run c s = Some y \<Longrightarrow>
                \<not> (chunk c = 0 \<and> timer s \<noteq> None \<and> offset s < length (body s))"
    and eq: "(case timer s of None \<Rightarrow> Some [s]
              | Some t \<Rightarrow> Option.bind (run c (drip c (s\<lparr>now := t, timer := None\<rparr>)))
                           (\<lambda>h. Some (s # h))) = Some y"
  show "\<not> (chunk c = 0 \<and> timer s \<noteq> None \<and> offset s < length (body s))"
  proof
    assume a: "chunk c = 0 \<and> timer s \<noteq> None \<and> offset s < length (body s)"
    then obtain t where t: "timer s = Some t" by auto
    let ?s' = "drip c (s\<lparr>now := t, timer := None\<rparr>)"
    from eq t have "Option.bind (run c ?s') (\<lambda>h. Some (s # h)) = Some y"
      by simp
    then obtain h' where h': "run c ?s' = Some h'"
      by (cases "run c ?s'") simp_all
    have "\<not> (chunk c = 0 \<and> timer ?s' \<noteq> None \<and> offset ?s' < length (body ?s'))"
      using h' by (rule IH)
    moreover have "timer ?s' \<noteq> None \<and> offset ?s' = offset s \<and> body ?s' = body s"
      using drip_stalls[of c "s\<lparr>now := t, timer := None\<rparr>"] a by simp
    ultimately show False using a by simp
  qed
qed

subsection \<open>The connection\<close>

lemma after_ticks_closed_at:
  "after_ticks cfg t0 j (r\<lparr>closed_at := x\<rparr>) k = (after_ticks cfg t0 j r k)\<lparr>closed_at := x\<rparr>"
  by (simp add: after_ticks_def)

lemma tick_in_log:
  assumes "k < n"
  shows "(t0 + k * interval cfg, Write (slice b (k * chunk cfg) (min (Suc k * chunk cfg) (length b))))
           \<in> set (concat (map (tick_events cfg b t0) [0..<n]))"
proof -
  have "(t0 + k * interval cfg, Write (slice b (k * chunk cfg) (min (Suc k * chunk cfg) (length b))))
          \<in> set (tick_events cfg b t0 k)"
    by (simp add: tick_events_def)
  moreover have "k \<in> set [0..<n]" using assms by simp
  ultimately show ?thesis by (simp del: set_upt) blast
qed

subsection \<open>Escaping\<close>

lemma replace_all_concat:
  "replace_all c rep (concat (map f s)) = concat (map (\<lambda>x. replace_all c rep (f x)) s)"
  by (induction s) (simp_all add: replace_all_def)

lemma replace_all_single:
  "replace_all c rep s = concat (map (\<lambda>x. if x = c then rep else [x]) s)"
  by (simp add: replace_all_def)

lemma escape_stages:
  "replace_all (CHR 0x27) ''&#039;''
     (replace_all (CHR 0x22) ''&quot;''
       (replace_all (CHR ''>'') ''&gt;''
         (replace_all (CHR ''<'') ''&lt;''
           (if x = CHR ''&'' then ''&amp;'' else [x])))) = escape_char x"
  by (simp add: replace_all_def escape_char_def)

lemma escape_chain:
  "replace_all (CHR 0x27) ''&#039;''
     (replace_all (CHR 0x22) ''&quot;''
       (replace_all (CHR ''>'') ''&gt;''
         (replace_all (CHR ''<'') ''&lt;''
           (replace_all (CHR ''&'') ''&amp;'' s)))) = concat (map escape_char s)"
  by (simp only: replace_all_single[of "CHR ''&''"] replace_all_concat escape_stages)

lemma escapeHtml_eq: "escapeHtml v = (if v = JTruthy then Inl TypeError else Inr (escaped v))"
  by (cases v) (simp_all add: escapeHtml_def truthy_value_def escaped_def escape_chain)

lemma escape_char_plain: "c \<in> set (escape_char x) \<Longrightarrow> \<not> special c"
  by (auto simp add: escape_char_def special_def split: if_splits)

lemma escaped_plain: "c \<in> set (escaped v) \<Longrightarrow> \<not> special c"
  by (cases v) (auto simp add: escaped_def dest: escape_char_plain)

lemma filter_special_escaped: "filter special (escaped v) = []"
  using escaped_plain[of _ v] by (simp add: filter_empty_conv)

lemma amps_ok_append: "amps_ok xs \<Longrightarrow> amps_ok ys \<Longrightarrow> amps_ok (xs @ ys)"
proof (induction xs)
  case Nil
  then show ?case by simp
next
  case (Cons c cs)
  have "take (length e) ((c # cs) @ ys) = e" if "take (length e) (c # cs) = e" for e
  proof -
    from arg_cong[OF that, of length] have "min (length (c # cs)) (length e) = length e"
      by (simp only: length_take)
    then have "length e \<le> length (c # cs)"
      by (simp only: min_def split: if_splits)
    then have "length e - length (c # cs) = 0" by simp
    moreover have "take (length e) ((c # cs) @ ys) =
        take (length e) (c # cs) @ take (length e - length (c # cs)) ys"
      by (rule take_append)
    ultimately show ?thesis by (simp only: that take_0 append_Nil2)
  qed
  with Cons show ?case by auto
qed

lemma amps_ok_escape_char: "amps_ok (escape_char x)"
  by (simp add: escape_char_def entities_def)

lemma amps_ok_escaped_chars: "amps_ok (concat (map escape_char s))"
  by (induction s) (simp_all add: amps_ok_append amps_ok_escape_char)

lemma amps_ok_escaped: "amps_ok (escaped v)"
  by (cases v) (simp_all add: escaped_def amps_ok_escaped_chars)

lemma escape_char_nonempty: "escape_char x \<noteq> []"
  by (simp add: escape_char_def)

lemma truthy_value_escaped: "truthy_value v \<longleftrightarrow> v = JTruthy \<or> escaped v \<noteq> []"
proof (cases v)
  case (JString s)
  then show ?thesis
    by (cases s) (simp_all add: truthy_value_def escaped_def escape_char_nonempty)
qed (simp_all add: truthy_value_def escaped_def)

text \<open>The rendering, given the escapes of the five fields.\<close>

lemma renderEntry_eq:
  \<open>renderEntry e =
     (if JTruthy \<in> {date e, name e, url e, message e, favorite e} then Inl TypeError
      else Inr (''  <div class="gb-entry">\<newline>    <span class="gb-date">'' @ escaped (date e)
            @ ''</span>\<newline>    <span class="gb-name">''
            @ (if truthy_value (url e)
               then ''<a href="'' @ escaped (url e) @ ''">'' @ escaped (name e) @ ''</a>''
               else escaped (name e))
            @ ''</span>\<newline>    <div class="gb-message">\<newline>      ''
            @ escaped (message e)
            @ (if truthy_value (favorite e)
               then ''<br><span style="font-size: 10px; color: #888;">Favorite game: ''
                    @ escaped (favorite e) @ ''</span>''
               else [])
            @ ''\<newline>    </div>\<newline>  </div>\<newline>''))\<close>
  by (simp add: renderEntry_def and_then_def escapeHtml_eq truthy_value_def)


lemma renderEntry_markup:
  assumes "renderEntry e = Inr h" and "renderEntry e' = Inr h'"
    and "truthy_value (url e) = truthy_value (url e')"
    and "truthy_value (favorite e) = truthy_value (favorite e')"
  shows "filter special h = filter special h'"
proof -
  have "JTruthy \<notin> {date e, name e, url e, message e, favorite e}"
    and "JTruthy \<notin> {date e', name e', url e', message e', favorite e'}"
    using assms(1,2) by (auto simp add: renderEntry_eq split: if_splits)
  then have "Inr (filter special h) = (Inr (filter special h') :: error + string)"
    using assms(1)[symmetric] assms(2)[symmetric] assms(3,4)
    by (simp add: renderEntry_eq filter_special_escaped special_def)
  then show ?thesis by simp
qed

lemma amps_ok_renderEntry:
  assumes "renderEntry e = Inr h"
  shows "amps_ok h"
proof -
  have "JTruthy \<notin> {date e, name e, url e, message e, favorite e}"
    using assms by (auto simp add: renderEntry_eq split: if_splits)
  then show ?thesis
    using assms[symmetric] by (simp add: renderEntry_eq amps_ok_append amps_ok_escaped)
qed

subsection \<open>The error page on the wire\<close>

lemma res_end_delivers:
  assumes "0 < chunk cfg" and "r1 = res_end cfg bf c enc r" and "timer r = None"
  shows "\<exists>evs. map_option log_of (run_timers cfg r1) = Some (out r @ evs) \<and>
           concat (writes evs) = body r1 \<and> length (end_times evs) = 1"
proof (cases "body r1 = []")
  case True
  have "map_option log_of (run_timers cfg r1) = Some (out r @ [(now r, End None)])"
    using res_end_log[OF assms] True by simp
  moreover have "concat (writes [(now r, End None)]) = body r1"
    using True by simp
  moreover have "length (end_times [(now r, End None)]) = 1"
    by simp
  ultimately show ?thesis by blast
next
  case False
  let ?n = "ceil_div (length (body r1)) (chunk cfg)"
  let ?ticks = "concat (map (tick_events cfg (body r1) (now r + latency cfg)) [0..<?n])"
  from assms(1) False have "0 < ?n" by (simp add: ceil_div_pos)
  then obtain m where m: "?n = Suc m" by (cases ?n) simp_all
  have e: "end_times ?ticks = [now r + latency cfg + m * interval cfg]"
    using final_tick(2)[OF assms(1) m, of "now r + latency cfg"] by (simp only: m)
  have w: "concat (writes ?ticks) = body r1"
    using pieces_concat[OF assms(1), of "body r1"] by (simp only: writes_ticks)
  have "map_option log_of (run_timers cfg r1) =
      Some (out r @ (now r, SetTimeout (latency cfg)) # ?ticks)"
    using res_end_log[OF assms] False by simp
  moreover have "concat (writes ((now r, SetTimeout (latency cfg)) # ?ticks)) = body r1"
    by (simp only: writes.simps w)
  moreover have "length (end_times ((now r, SetTimeout (latency cfg)) # ?ticks)) = 1"
    by (simp only: end_times.simps e) simp
  ultimately show ?thesis by blast
qed

text \<open>
  What the handler does with an empty message when the three fields it trims are strings
  or missing: the file is left as it was, the status is 400, and the error page is
  finalised through the throttle, which delivers exactly its bytes and then ends the
  response, or through Node's own \<open>end\<close> when the throttle is bypassed.
\<close>

lemma string_fields_empty_message:
  assumes "form req = Some params"
    and "text_field (params ''name'') = Inr n"
    and "text_field (params ''message'') = Inr []"
    and "text_field (params ''url'') = Inr u"
  shows "\<exists>res'. post_sign_guestbook modem cfg bf today page req file res = Inr (res', file) \<and>
     statusCode res' = 400 \<and>
     (modem \<and> query req ''turbo'' \<noteq> Some (QStr ''1'') \<longrightarrow>
        res' = res_end cfg bf (Some (Str page_missing)) (Some ''utf8'')
                 (res\<lparr>redirect_impl := Throttled, chunks := Some [], write_impl := Throttled,
                      end_impl := Throttled, statusCode := 400\<rparr>) \<and>
        body res' = bf page_missing ''utf8'' \<and>
        (0 < chunk cfg \<and> timer res = None \<longrightarrow>
           (\<exists>evs. map_option log_of (run_timers cfg res') = Some (out res @ evs) \<and>
                  concat (writes evs) = bf page_missing ''utf8'' \<and>
                  length (end_times evs) = 1))) \<and>
     ((\<not> modem \<or> query req ''turbo'' = Some (QStr ''1'')) \<and> end_impl res = Original \<longrightarrow>
        res' = originalEnd (Some (bf page_missing ''utf8'')) (res\<lparr>statusCode := 400\<rparr>)) \<and>
     (modem \<and> query req ''turbo'' \<noteq> Some (QStr ''1'') \<and> 0 < chunk cfg \<and> timer res = None \<and>
      r2 = res_end cfg bf2 c2 enc2 r0 \<and> timer r0 = None \<and> now r0 = now res \<and> out r0 = out res \<and>
      length (body r2) = length (bf page_missing ''utf8'') \<longrightarrow>
        map_option (schedule \<circ> log_of) (run_timers cfg res') =
        map_option (schedule \<circ> log_of) (run_timers cfg r2))"
proof -
  let ?w = "res\<lparr>redirect_impl := Throttled, chunks := Some [], write_impl := Throttled,
                end_impl := Throttled, statusCode := 400\<rparr>"
  let ?thr = "modem \<and> query req ''turbo'' \<noteq> Some (QStr ''1'')"
  let ?in = "if ?thr then res\<lparr>redirect_impl := Throttled, chunks := Some [],
                               write_impl := Throttled, end_impl := Throttled\<rparr>
             else res"
  let ?res' = "send cfg bf page_missing (?in\<lparr>statusCode := 400\<rparr>)"
  have handler: "sign_guestbook cfg bf today page req file r =
      Inr (send cfg bf page_missing (r\<lparr>statusCode := 400\<rparr>), file)" for r
    using assms by (simp add: sign_guestbook_def and_then_def Let_def)
  have "post_sign_guestbook modem cfg bf today page req file res =
      sign_guestbook cfg bf today page req file ?in"
    by (simp add: post_sign_guestbook_def modemThrottle_def)
  then have post: "post_sign_guestbook modem cfg bf today page req file res = Inr (?res', file)"
    by (simp only: handler)
  have status: "statusCode ?res' = 400"
    by (simp add: send_def call_end_statusCode)
  have thr: "?res' = res_end cfg bf (Some (Str page_missing)) (Some ''utf8'') ?w" if ?thr
    using that by (simp add: send_def call_end_def)
  have body: "body ?res' = bf page_missing ''utf8''" if ?thr
  proof -
    have "body ?res' = body (res_end cfg bf (Some (Str page_missing)) (Some ''utf8'') ?w)"
      by (rule arg_cong[OF thr[OF that]])
    also have "\<dots> = bf page_missing ''utf8''"
      by (rule res_end_page_body) (simp_all add: page_missing_nonempty)
    finally show ?thesis .
  qed
  have sink: "\<exists>evs. map_option log_of (run_timers cfg ?res') = Some (out res @ evs) \<and>
                  concat (writes evs) = bf page_missing ''utf8'' \<and>
                  length (end_times evs) = 1"
    if "?thr" and "0 < chunk cfg \<and> timer res = None"
  proof -
    have t: "timer ?w = None" using that(2) by simp
    from res_end_delivers[OF _ thr[OF that(1)] t] that(2) body[OF that(1)]
    show ?thesis by simp
  qed
  have byp: "?res' = originalEnd (Some (bf page_missing ''utf8'')) (res\<lparr>statusCode := 400\<rparr>)"
    if "(\<not> modem \<or> query req ''turbo'' = Some (QStr ''1'')) \<and> end_impl res = Original"
  proof -
    from that have "\<not> ?thr" and "end_impl res = Original" by auto
    then show ?thesis by (auto simp add: send_def call_end_def to_buffer_def)
  qed
  have same: "map_option (schedule \<circ> log_of) (run_timers cfg ?res') =
        map_option (schedule \<circ> log_of) (run_timers cfg r2)"
    if h: "?thr \<and> 0 < chunk cfg \<and> timer res = None \<and>
      r2 = res_end cfg bf2 c2 enc2 r0 \<and> timer r0 = None \<and> now r0 = now res \<and> out r0 = out res \<and>
      length (body r2) = length (bf page_missing ''utf8'')"
  proof (rule same_size_same_schedule)
    from h have t: ?thr and len: "length (body r2) = length (bf page_missing ''utf8'')"
      by blast+
    show "0 < chunk cfg" using h by simp
    show "?res' = res_end cfg bf (Some (Str page_missing)) (Some ''utf8'') ?w" by (rule thr[OF t])
    show "timer ?w = None" using h by simp
    show "r2 = res_end cfg bf2 c2 enc2 r0" using h by simp
    show "timer r0 = None" using h by simp
    show "length (body ?res') = length (body r2)" by (simp only: body[OF t] len)
    show "now ?w = now r0" using h by simp
    show "out ?w = out r0" using h by simp
  qed
  from post status thr body sink byp same show ?thesis by blast
qed

text \<open>A message of white space only, and the favorite \<open>__proto__\<close> as it comes back from the file.\<close>

lemma blank_message_example:
  "\<exists>res'. post_sign_guestbook True server_throttle latin1 ''01/01/1999 - 1:00 AM'' None
            blank_message_request (Some []) (fresh_response 0) = Inr (res', Some []) \<and>
          statusCode res' = 400"
proof -
  let ?params = "\<lambda>k. if k = ''name'' then Some (FStr ''Guybrush'')
                     else if k = ''message'' then Some (FStr '' \<newline> '') else None"
  have f: "form blank_message_request = Some ?params"
    by (simp add: blank_message_request_def)
  have n: "text_field (?params ''name'') = Inr ''Guybrush''"
    by (simp add: text_field_def trim_def is_space_def)
  have m: "text_field (?params ''message'') = Inr []"
    by (simp add: text_field_def trim_def is_space_def)
  have u: "text_field (?params ''url'') = Inr []"
    by (simp add: text_field_def)
  from string_fields_empty_message[OF f n m u] show ?thesis
    by blast
qed

lemma favorite_proto_example:
  "to_json (favoriteLabel (or_empty (Some (FStr ''__proto__'')))) = JTruthy \<and>
   to_json (favoriteLabel (or_empty (Some (FStr ''toString'')))) = Nullish \<and>
   to_json (favoriteLabel (or_empty (Some (FStr ''mi2'')))) =
     JString ''Monkey Island 2: LeChuck's Revenge'' \<and>
   to_json (favoriteLabel (or_empty None)) = JString []"
  by (simp add: favoriteLabel_def property_key_def or_empty_def to_json_def inherited_functions_def)

section \<open>The claims\<close>

text \<open>
  C1. A finalised body of length \<open>L > 0\<close> reaches the underlying response in exactly
  \<open>ceil (L / chunk)\<close> writes; the \<open>k\<close>-th piece is the slice of the body from \<open>k * chunk\<close>
  to \<open>min ((k + 1) * chunk) L\<close>, so the pieces are contiguous, disjoint and in order; every
  piece but the last has \<open>chunk\<close> bytes; their concatenation is the body; and the cursor
  never decreases over the run, ends at \<open>L\<close>, and has the value \<open>L\<close> in exactly one state of
  the run. This holds for every positive chunk size, \<open>CHUNK_SIZE\<close> among them.
\<close>

theorem drip_delivers_body:
  assumes "0 < chunk cfg" and "r1 = res_end cfg bf c enc r" and "body r1 \<noteq> []"
  shows "\<exists>h evs. run_timers cfg r1 = Some h \<and> out (last h) = out r @ evs \<and>
           length (writes evs) = ceil_div (length (body r1)) (chunk cfg) \<and>
           (\<forall>k < length (writes evs).
               writes evs ! k =
                 slice (body r1) (k * chunk cfg) (min (Suc k * chunk cfg) (length (body r1)))) \<and>
           (\<forall>k. Suc k < length (writes evs) \<longrightarrow> length (writes evs ! k) = chunk cfg) \<and>
           concat (writes evs) = body r1 \<and>
           sorted (map offset h) \<and>
           count_list (map offset h) (length (body r1)) = 1 \<and>
           offset (last h) = length (body r1)"
proof -
  let ?n = "ceil_div (length (body r1)) (chunk cfg)"
  let ?t0 = "now r + latency cfg"
  let ?h = "map (after_ticks cfg ?t0 0 r1) [0..<Suc ?n]"
  let ?evs = "(now r, SetTimeout (latency cfg)) # concat (map (tick_events cfg (body r1) ?t0) [0..<?n])"
  let ?ps = "map (\<lambda>k. slice (body r1) (k * chunk cfg) (min (Suc k * chunk cfg) (length (body r1)))) [0..<?n]"
  have run: "run_timers cfg r1 = Some ?h"
    using assms by (rule res_end_run)
  have out: "out (last ?h) = out r @ ?evs"
    using res_end_nonempty(3)[OF assms(2,3)] by (simp add: after_ticks_def)
  have ws: "writes ?evs = ?ps"
    by (simp add: writes_ticks)
  have len: "length (writes ?evs) = ?n"
    by (simp only: ws) simp
  have nth: "\<forall>k < length (writes ?evs). writes ?evs ! k =
       slice (body r1) (k * chunk cfg) (min (Suc k * chunk cfg) (length (body r1)))"
    by (simp only: ws) simp
  have full: "\<forall>k. Suc k < length (writes ?evs) \<longrightarrow> length (writes ?evs ! k) = chunk cfg"
    using piece_full[OF assms(1), of _ "body r1"] by (simp only: ws) simp
  have cat: "concat (writes ?evs) = body r1"
    using pieces_concat[OF assms(1), of "body r1"] by (simp only: ws)
  have offs: "map offset ?h = map (\<lambda>k. min (k * chunk cfg) (length (body r1))) [0..<Suc ?n]"
    by (rule offsets_run)
  have srt: "sorted (map offset ?h)"
    by (simp only: offs sorted_offsets)
  have cnt: "count_list (map offset ?h) (length (body r1)) = 1"
    using count_offsets[OF assms(1), of "length (body r1)"] assms(3) by (simp only: offs) simp
  have fin: "offset (last ?h) = length (body r1)"
    using ceil_div_le_iff[OF assms(1), of "length (body r1)" ?n] by (simp add: after_ticks_def)
  from run out len nth full cat srt cnt fin show ?thesis by blast
qed

theorem drip_delivers_body_witness:
  "0 < chunk server_throttle \<and>
   body (res_end server_throttle latin1 (Some (Buf [1, 2, 3])) None (wrapped_response 0)) = [1, 2, 3] \<and>
   (\<exists>h evs. run_timers server_throttle
                (res_end server_throttle latin1 (Some (Buf [1, 2, 3])) None (wrapped_response 0)) = Some h \<and>
        out (last h) = evs \<and> length (writes evs) = 1 \<and> concat (writes evs) = [1, 2, 3] \<and>
        offset (last h) = 3)"
proof -
  let ?r1 = "res_end server_throttle latin1 (Some (Buf [1, 2, 3])) None (wrapped_response 0)"
  have c: "chunk server_throttle = 350"
    by (simp add: server_throttle_def configure_def chunk_size_def bytes_per_sec_def
        MODEM_BPS_def CHUNK_INTERVAL_def)
  have b: "body ?r1 = [1, 2, 3]"
    by (simp add: res_end_def wrapped_response_def modemThrottle_def plain_request_def
        fresh_response_def truthy_def chunk_length_def push_def to_buffer_def Let_def
        setTimeout_def emit_def)
  have o: "out (wrapped_response 0) = []"
    by (simp add: wrapped_response_def modemThrottle_def plain_request_def fresh_response_def)
  have n: "ceil_div (Suc (Suc (Suc 0))) 350 = Suc 0"
    by (simp add: ceil_div_def)
  from c have pos: "0 < chunk server_throttle" by simp
  from b have ne: "body ?r1 \<noteq> []" by simp
  from drip_delivers_body[OF pos refl ne] show ?thesis
    using pos b o n c by auto
qed

text \<open>
  C2, as the code has it. The delays armed from the wrapped \<open>end\<close> to the underlying
  \<open>end\<close> add up to exactly \<open>latency + (ceil (L / chunk) - 1) * interval\<close>: the \<open>k\<close>-th
  piece is written at \<open>latency + k * interval\<close> after the call, and the underlying \<open>end\<close> is
  called in the tick of the last piece, \<open>(ceil (L / chunk) - 1) * interval\<close> after the first
  tick. The formula \<open>latency + ceil (L / chunk) * interval\<close> is one interval more.
\<close>

theorem drip_total_delay:
  assumes "0 < chunk cfg" and "r1 = res_end cfg bf c enc r" and "body r1 \<noteq> []"
  shows "\<exists>h evs. run_timers cfg r1 = Some h \<and> out (last h) = out r @ evs \<and>
           sum_list (delays evs) =
             latency cfg + (ceil_div (length (body r1)) (chunk cfg) - 1) * interval cfg \<and>
           write_times evs =
             map (\<lambda>k. now r + latency cfg + k * interval cfg)
               [0..<ceil_div (length (body r1)) (chunk cfg)] \<and>
           end_times evs =
             [now r + latency cfg + (ceil_div (length (body r1)) (chunk cfg) - 1) * interval cfg]"
proof -
  let ?n = "ceil_div (length (body r1)) (chunk cfg)"
  let ?t0 = "now r + latency cfg"
  let ?h = "map (after_ticks cfg ?t0 0 r1) [0..<Suc ?n]"
  let ?ticks = "concat (map (tick_events cfg (body r1) ?t0) [0..<?n])"
  let ?evs = "(now r, SetTimeout (latency cfg)) # ?ticks"
  have run: "run_timers cfg r1 = Some ?h"
    using assms by (rule res_end_run)
  have out: "out (last ?h) = out r @ ?evs"
    using res_end_nonempty(3)[OF assms(2,3)] by (simp add: after_ticks_def)
  from assms(1,3) have "0 < ?n" by (simp add: ceil_div_pos)
  then obtain m where m: "?n = Suc m" by (cases ?n) simp_all
  have d: "delays ?ticks = replicate m (interval cfg)"
    and e: "end_times ?ticks = [?t0 + m * interval cfg]"
    using final_tick[OF assms(1) m, of ?t0] by (simp_all only: m)
  have "delays ?evs = latency cfg # replicate m (interval cfg)"
    by (simp only: delays.simps d)
  then have sum: "sum_list (delays ?evs) = latency cfg + (?n - 1) * interval cfg"
    by (simp add: m sum_list_replicate)
  have wt: "write_times ?evs = map (\<lambda>k. ?t0 + k * interval cfg) [0..<?n]"
    by (simp add: write_times_ticks)
  have "end_times ?evs = [?t0 + m * interval cfg]"
    by (simp only: end_times.simps e)
  then have et: "end_times ?evs = [?t0 + (?n - 1) * interval cfg]"
    by (simp add: m)
  from run out sum wt et show ?thesis by blast
qed

theorem drip_total_delay_witness:
  "0 < chunk server_throttle \<and>
   body (res_end server_throttle latin1 (Some (Str ''hello'')) None (wrapped_response 7)) \<noteq> [] \<and>
   (\<exists>h evs. run_timers server_throttle
        (res_end server_throttle latin1 (Some (Str ''hello'')) None (wrapped_response 7)) = Some h \<and>
      out (last h) = evs \<and> sum_list (delays evs) = 120 \<and> write_times evs = [127] \<and> end_times evs = [127])"
proof -
  let ?r1 = "res_end server_throttle latin1 (Some (Str ''hello'')) None (wrapped_response 7)"
  have pos: "0 < chunk server_throttle" by (simp add: server_throttle_values)
  have b: "length (body ?r1) = 5" by (simp add: run_defs)
  then have ne: "body ?r1 \<noteq> []" by auto
  have o: "out (wrapped_response 7) = []" "now (wrapped_response 7) = 7" by (simp_all add: run_defs)
  have n: "ceil_div 5 350 = 1" by (simp add: ceil_div_def)
  from drip_total_delay[OF pos refl ne] show ?thesis
    using pos ne by (simp add: b o n server_throttle_values)
qed

text \<open>
  A body of one byte: the underlying \<open>end\<close> is called 120 ms after the wrapped one, where
  the formula of the claim gives 170 ms.
\<close>

theorem drip_total_delay_counterexample:
  "map_option log_of (run_timers server_throttle
       (res_end server_throttle latin1 (Some (Buf [7])) None (wrapped_response 0))) =
     Some [(0, SetTimeout 120), (120, Write [7]), (120, End None)] \<and>
   latency server_throttle + ceil_div 1 (chunk server_throttle) * interval server_throttle = 170"
  by (simp add: run_defs run_timers_idle run_timers_fire drip_def slice_def server_throttle_values
      log_of_def ceil_div_def)

text \<open>
  C3. When the accumulated buffer \<open>Buffer.concat (chunks)\<close> is empty, the wrapped \<open>end\<close>
  calls the underlying \<open>end\<close> without a body at the time of the call, and does nothing
  else: no write, no timer armed, nothing left for the event loop to run.
\<close>

theorem empty_body_ends_at_once:
  assumes "r1 = res_end cfg bf c enc r" and "body r1 = []"
  shows "out r1 = out r @ [(now r, End None)] \<and> timer r1 = timer r \<and> now r1 = now r \<and>
         writes (out r1) = writes (out r) \<and> delays (out r1) = delays (out r) \<and>
         (timer r = None \<longrightarrow> run_timers cfg r1 = Some [r1])"
proof -
  have o: "out r1 = out r @ [(now r, End None)]" and t: "timer r1 = timer r" and n: "now r1 = now r"
    using assms
    by (auto simp add: res_end_def Let_def originalEnd_def emit_def push_def setTimeout_def split: if_splits)
  have "run_timers cfg r1 = Some [r1]" if "timer r = None"
    using that t by (subst run_timers.simps) simp
  with o t n show ?thesis by (simp add: writes_append delays_append)
qed

theorem empty_body_ends_at_once_witness:
  "body (res_end server_throttle latin1 (Some (Str [])) None
           (write_all latin1 [(Some (Str []), None), (Some (Buf []), None), (None, None)]
              (wrapped_response 3))) = [] \<and>
   out (res_end server_throttle latin1 (Some (Str [])) None
           (write_all latin1 [(Some (Str []), None), (Some (Buf []), None), (None, None)]
              (wrapped_response 3))) = [(3, End None)] \<and>
   timer (res_end server_throttle latin1 (Some (Str [])) None
           (write_all latin1 [(Some (Str []), None), (Some (Buf []), None), (None, None)]
              (wrapped_response 3))) = None"
proof -
  let ?r = "write_all latin1 [(Some (Str []), None), (Some (Buf []), None), (None, None)]
              (wrapped_response 3)"
  let ?r1 = "res_end server_throttle latin1 (Some (Str [])) None ?r"
  have b: "body ?r1 = []"
    by (simp add: run_defs write_all_def res_write_def)
  have o: "out ?r = []" "now ?r = 3" "timer ?r = None"
    by (simp_all add: run_defs write_all_def res_write_def)
  from empty_body_ends_at_once[OF refl b] show ?thesis
    using b o by simp
qed

text \<open>
  C4. On a throttled request, whatever the handler has written through the wrapped
  \<open>write\<close> before, a redirect puts Node's own \<open>write\<close> and \<open>end\<close> back and then runs
  Express's redirect on them: the response gets status 302 and its Location, the
  underlying \<open>end\<close> is called with Express's redirect body at the time of the call, no
  timer is armed, and none of the buffered bytes is sent.
\<close>

theorem redirect_bypasses_throttle:
  assumes "modem" and "query req ''turbo'' \<noteq> Some (QStr ''1'')"
    and "r' = modemThrottle modem req res
                (\<lambda>r. call_redirect cfg bf target page (write_all bf ws r))"
  shows "write_impl r' = Original \<and> end_impl r' = Original \<and>
         statusCode r' = 302 \<and> location r' = Some target \<and>
         out r' = out res @ [(now res, End (map_option (\<lambda>x. to_buffer bf x None) page))] \<and>
         now r' = now res \<and> timer r' = timer res \<and>
         (timer res = None \<longrightarrow> run_timers cfg r' = Some [r'])"
proof -
  let ?w = "res\<lparr>redirect_impl := Throttled, chunks := Some [], write_impl := Throttled, end_impl := Throttled\<rparr>"
  obtain cs where cs: "write_all bf ws ?w = ?w\<lparr>chunks := cs\<rparr>"
    using write_all_chunks by blast
  have r': "r' = call_redirect cfg bf target page (?w\<lparr>chunks := cs\<rparr>)"
    using assms by (simp add: modemThrottle_def cs)
  then have fields: "write_impl r' = Original" "end_impl r' = Original" "statusCode r' = 302"
    "location r' = Some target"
    "out r' = out res @ [(now res, End (map_option (\<lambda>x. to_buffer bf x None) page))]"
    "now r' = now res" "timer r' = timer res"
    by (simp_all add: call_redirect_def res_redirect_def originalRedirect_def call_end_def
        originalEnd_def emit_def)
  have "run_timers cfg r' = Some [r']" if "timer res = None"
    using that fields(7) by (simp add: run_timers_idle)
  with fields show ?thesis by simp
qed

theorem redirect_bypasses_throttle_witness:
  "query plain_request ''turbo'' \<noteq> Some (QStr ''1'') \<and>
   write_impl (modemThrottle True plain_request (fresh_response 5)
      (\<lambda>r. call_redirect server_throttle latin1 ''/guestbook.html'' (Some (Str ''Found''))
             (write_all latin1 [(Some (Str ''partial''), None)] r))) = Original \<and>
   out (modemThrottle True plain_request (fresh_response 5)
      (\<lambda>r. call_redirect server_throttle latin1 ''/guestbook.html'' (Some (Str ''Found''))
             (write_all latin1 [(Some (Str ''partial''), None)] r))) =
     [(5, End (Some (latin1 ''Found'' ''utf8'')))]"
proof -
  have q: "query plain_request ''turbo'' \<noteq> Some (QStr ''1'')"
    by (simp add: plain_request_def)
  have f: "out (fresh_response 5) = []" "now (fresh_response 5) = 5"
    by (simp_all add: fresh_response_def)
  from redirect_bypasses_throttle[OF TrueI q refl, of "fresh_response 5" server_throttle latin1
      "''/guestbook.html''" "Some (Str ''Found'')" "[(Some (Str ''partial''), None)]"]
  show ?thesis using q f by (simp add: to_buffer_def)
qed

text \<open>
  C5. With \<open>?turbo=1\<close> the middleware passes the response on as it received it: no method
  is replaced and no buffer allocated, so the rest of the chain runs exactly as it would
  without the middleware; a call of \<open>end\<close> on the untouched response is Node's own.
\<close>

theorem turbo_bypasses_throttle:
  assumes "query req ''turbo'' = Some (QStr ''1'')"
  shows "modemThrottle modem req res next = next res \<and>
         modemThrottle modem req res (\<lambda>r. r) = res \<and>
         (end_impl res = Original \<longrightarrow>
            modemThrottle modem req res (call_end cfg bf c enc) =
              originalEnd (map_option (\<lambda>x. to_buffer bf x enc) c) res)"
  using assms by (simp add: modemThrottle_def call_end_def)

theorem turbo_bypasses_throttle_witness:
  "query turbo_request ''turbo'' = Some (QStr ''1'') \<and>
   modemThrottle True turbo_request (fresh_response 0) (\<lambda>r. r) = fresh_response 0 \<and>
   out (modemThrottle True turbo_request (fresh_response 0)
          (call_end server_throttle latin1 (Some (Buf [1, 2])) None)) = [(0, End (Some [1, 2]))]"
proof -
  have q: "query turbo_request ''turbo'' = Some (QStr ''1'')"
    by (simp add: turbo_request_def)
  have e: "end_impl (fresh_response 0) = Original"
    by (simp add: fresh_response_def)
  from turbo_bypasses_throttle[OF q, of True "fresh_response 0" "\<lambda>r. r" server_throttle latin1
      "Some (Buf [1, 2])" None]
  show ?thesis using q e by (simp add: originalEnd_def emit_def to_buffer_def fresh_response_def)
qed

text \<open>
  C6, as the code has it. Nothing checks the chunk size: it is the constant 350, computed
  from the constants \<open>MODEM_BPS\<close> and \<open>CHUNK_INTERVAL\<close> of the source, and being positive it
  makes every drip chain stop, with no timer left, whatever the body.
\<close>

theorem chunk_size_positive:
  "CHUNK_SIZE = 350 \<and> chunk server_throttle = CHUNK_SIZE \<and> 0 < CHUNK_SIZE \<and>
   (timer r = None \<longrightarrow>
      (\<exists>h. run_timers server_throttle (res_end server_throttle bf c enc r) = Some h \<and>
           timer (last h) = None))"
proof -
  let ?r1 = "res_end server_throttle bf c enc r"
  have pos: "0 < chunk server_throttle" by (simp add: server_throttle_values)
  have "\<exists>h. run_timers server_throttle ?r1 = Some h \<and> timer (last h) = None" if t: "timer r = None"
  proof (cases "body ?r1 = []")
    case True
    have "timer ?r1 = None" using res_end_empty(2)[OF refl True] t by simp
    then show ?thesis by (simp add: run_timers_idle)
  next
    case False
    let ?n = "ceil_div (length (body ?r1)) (chunk server_throttle)"
    have "length (body ?r1) \<le> ?n * chunk server_throttle"
      using ceil_div_le_iff[OF pos, of "length (body ?r1)" ?n] by simp
    then have "timer (after_ticks server_throttle (now r + latency server_throttle) 0 ?r1 ?n) = None"
      by (simp add: after_ticks_def)
    then show ?thesis
      using res_end_run[OF pos refl False] by (simp only: last_run) simp
  qed
  then show ?thesis by (simp add: CHUNK_SIZE_value server_throttle_values)
qed

theorem chunk_size_positive_witness:
  "timer (wrapped_response 0) = None \<and>
   (\<exists>h. run_timers server_throttle
          (res_end server_throttle latin1 (Some (Str ''Murray'')) None (wrapped_response 0)) = Some h \<and>
        timer (last h) = None)"
proof -
  have t: "timer (wrapped_response 0) = None" by (simp add: run_defs)
  from chunk_size_positive[of "wrapped_response 0" latin1 "Some (Str ''Murray'')" None]
  show ?thesis using t by simp
qed

text \<open>
  With a bit rate of 100 the same derivation gives a chunk size of 0; nothing rejects it,
  and the drip chain of a one-byte body then never stops.
\<close>

theorem no_startup_guard_counterexample:
  "chunk (configure 100 120 50) = 0 \<and>
   run_timers (configure 100 120 50)
     (res_end (configure 100 120 50) latin1 (Some (Buf [7])) None (wrapped_response 0)) = None"
proof -
  let ?cfg = "configure 100 120 50"
  let ?r1 = "res_end ?cfg latin1 (Some (Buf [7])) None (wrapped_response 0)"
  have c: "chunk ?cfg = 0"
    by (simp add: configure_def chunk_size_def bytes_per_sec_def)
  have "timer ?r1 \<noteq> None" "offset ?r1 < length (body ?r1)"
    by (simp_all add: run_defs)
  with c have "run_timers ?cfg ?r1 = Some h \<Longrightarrow> False" for h
    using run_timers_stalls[of ?cfg ?r1 h] by simp
  then have "run_timers ?cfg ?r1 = None" by (cases "run_timers ?cfg ?r1") auto
  with c show ?thesis by simp
qed

text \<open>
  C7, as the code has it. \<open>drip\<close> reads nothing of the connection: whether and when it
  closes, the run is the same, state by state. Every tick but the last rearms, each tick
  scheduled after the close still writes its piece, and the chain stops by itself after
  \<open>ceil (L / chunk)\<close> ticks, leaving no timer.
\<close>

theorem drip_ignores_close:
  assumes "0 < chunk cfg" and "r1 = res_end cfg bf c enc r" and "body r1 \<noteq> []"
  shows "\<exists>h. run_timers cfg r1 = Some h \<and>
           run_timers cfg (r1\<lparr>closed_at := x\<rparr>) = Some (map (\<lambda>s. s\<lparr>closed_at := x\<rparr>) h) \<and>
           length h = Suc (ceil_div (length (body r1)) (chunk cfg)) \<and>
           (\<forall>i < ceil_div (length (body r1)) (chunk cfg). timer (h ! i) \<noteq> None) \<and>
           timer (last h) = None \<and>
           (\<forall>k t. k < ceil_div (length (body r1)) (chunk cfg) \<and> x = Some t \<and>
                  t < now r + latency cfg + k * interval cfg \<longrightarrow>
              (now r + latency cfg + k * interval cfg,
               Write (slice (body r1) (k * chunk cfg) (min (Suc k * chunk cfg) (length (body r1)))))
                \<in> set (dead_attempts ((last h)\<lparr>closed_at := x\<rparr>)))"
proof -
  let ?n = "ceil_div (length (body r1)) (chunk cfg)"
  let ?t0 = "now r + latency cfg"
  let ?h = "map (after_ticks cfg ?t0 0 r1) [0..<Suc ?n]"
  let ?r1x = "r1\<lparr>closed_at := x\<rparr>"
  note st = res_end_nonempty[OF assms(2,3)]
  have run: "run_timers cfg r1 = Some ?h"
    using assms by (rule res_end_run)
  have "run_timers cfg ?r1x =
      Some (map (after_ticks cfg ?t0 0 ?r1x) [0..<Suc (ceil_div (length (body ?r1x)) (chunk cfg))])"
    using run_timers_closed[OF assms(1), of ?r1x 0 ?t0] st assms(3) by simp
  then have runx: "run_timers cfg ?r1x = Some (map (\<lambda>s. s\<lparr>closed_at := x\<rparr>) ?h)"
    by (simp add: after_ticks_closed_at del: upt_Suc)
  have len: "length ?h = Suc ?n" by simp
  have pending: "\<forall>i < ?n. timer (?h ! i) \<noteq> None"
  proof (intro allI impI)
    fix i assume i: "i < ?n"
    then have "\<not> length (body r1) \<le> i * chunk cfg"
      using ceil_div_le_iff[OF assms(1), of "length (body r1)" i] by simp
    moreover have "?h ! i = after_ticks cfg ?t0 0 r1 i"
      using i by (simp del: upt_Suc)
    ultimately show "timer (?h ! i) \<noteq> None" by (simp add: after_ticks_def)
  qed
  have lst: "last ?h = after_ticks cfg ?t0 0 r1 ?n" by (rule last_run)
  have "length (body r1) \<le> ?n * chunk cfg"
    using ceil_div_le_iff[OF assms(1), of "length (body r1)" ?n] by simp
  then have stop: "timer (last ?h) = None"
    by (simp only: lst) (simp add: after_ticks_def)
  have dead: "(?t0 + k * interval cfg,
               Write (slice (body r1) (k * chunk cfg) (min (Suc k * chunk cfg) (length (body r1)))))
                \<in> set (dead_attempts ((last ?h)\<lparr>closed_at := x\<rparr>))"
    if "k < ?n \<and> x = Some t \<and> t < ?t0 + k * interval cfg" for k t
  proof -
    from that have k: "k < ?n" and x: "x = Some t" and t: "t < ?t0 + k * interval cfg" by auto
    have "(?t0 + k * interval cfg,
           Write (slice (body r1) (k * chunk cfg) (min (Suc k * chunk cfg) (length (body r1)))))
            \<in> set (out (after_ticks cfg ?t0 0 r1 ?n))"
      using tick_in_log[OF k, of ?t0 cfg "body r1"] by (simp add: after_ticks_def)
    then show ?thesis
      using t by (simp only: lst) (simp add: dead_attempts_def x)
  qed
  from run runx len pending stop dead show ?thesis by blast
qed

theorem drip_ignores_close_witness:
  "0 < chunk server_throttle \<and>
   body (res_end server_throttle latin1 (Some (Buf [1, 2, 3])) None (wrapped_response 0)) \<noteq> [] \<and>
   (\<exists>h. run_timers server_throttle
          ((res_end server_throttle latin1 (Some (Buf [1, 2, 3])) None (wrapped_response 0))
             \<lparr>closed_at := Some 100\<rparr>) = Some (map (\<lambda>s. s\<lparr>closed_at := Some 100\<rparr>) h) \<and>
        length h = 2 \<and> timer (last h) = None \<and>
        (120, Write [1, 2, 3]) \<in> set (dead_attempts ((last h)\<lparr>closed_at := Some 100\<rparr>)))"
proof -
  let ?r1 = "res_end server_throttle latin1 (Some (Buf [1, 2, 3])) None (wrapped_response 0)"
  have pos: "0 < chunk server_throttle" by (simp add: server_throttle_values)
  have b: "body ?r1 = [1, 2, 3]" by (simp add: run_defs)
  then have ne: "body ?r1 \<noteq> []" by simp
  have o: "now (wrapped_response 0) = 0" by (simp add: run_defs)
  have n: "ceil_div (Suc (Suc (Suc 0))) 350 = Suc 0" by (simp add: ceil_div_def)
  from drip_ignores_close[OF pos refl ne, of "Some 100"] obtain h where
    h: "run_timers server_throttle (?r1\<lparr>closed_at := Some 100\<rparr>) =
          Some (map (\<lambda>s. s\<lparr>closed_at := Some 100\<rparr>) h)"
       "length h = Suc (ceil_div (length (body ?r1)) (chunk server_throttle))"
       "timer (last h) = None"
       "\<forall>k t. k < ceil_div (length (body ?r1)) (chunk server_throttle) \<and> Some 100 = Some t \<and>
                  t < now (wrapped_response 0) + latency server_throttle + k * interval server_throttle \<longrightarrow>
              (now (wrapped_response 0) + latency server_throttle + k * interval server_throttle,
               Write (slice (body ?r1) (k * chunk server_throttle)
                        (min (Suc k * chunk server_throttle) (length (body ?r1)))))
                \<in> set (dead_attempts ((last h)\<lparr>closed_at := Some 100\<rparr>))"
    by blast
  from h(4)[rule_format, of 0 100]
  have "(120, Write [1, 2, 3]) \<in> set (dead_attempts ((last h)\<lparr>closed_at := Some 100\<rparr>))"
    by (simp add: b n o server_throttle_values slice_def)
  with h(1,2,3) pos ne show ?thesis
    by (auto simp add: b n server_throttle_values)
qed

text \<open>
  A body of 900 bytes whose connection closes at 130 ms, after the first piece: the pieces
  of 170 ms and 220 ms are written all the same, and the timer is rearmed at 170 ms.
\<close>

theorem drip_ignores_close_counterexample:
  "map_option (dead_attempts \<circ> last)
     (run_timers server_throttle
        (res_end server_throttle latin1 (Some (Buf (replicate 900 0))) None
           ((wrapped_response 0)\<lparr>closed_at := Some 130\<rparr>))) =
   Some [(170, Write (replicate 350 0)), (170, SetTimeout 50), (220, Write (replicate 200 0))]"
  by (simp add: run_defs run_timers_idle run_timers_fire drip_def slice_def server_throttle_values
      dead_attempts_def)

text \<open>
  C8. The constants give a chunk size of 350 bytes, an interval of 50 ms and a latency of
  120 ms. A body of 900 bytes is then written in three pieces of 350, 350 and 200 bytes,
  the bytes 0 to 350, 350 to 700 and 700 to 900, at 120, 170 and 220 ms after the call of
  the wrapped \<open>end\<close>, and the underlying \<open>end\<close> is called at 220 ms.
\<close>

theorem scenario_900_bytes:
  assumes "r1 = res_end server_throttle bf c enc r" and "length (body r1) = 900"
  shows "CHUNK_SIZE = 350 \<and> chunk server_throttle = CHUNK_SIZE \<and>
         interval server_throttle = 50 \<and> latency server_throttle = 120 \<and>
         (\<exists>h evs. run_timers server_throttle r1 = Some h \<and> out (last h) = out r @ evs \<and>
            evs = [(now r, SetTimeout 120),
                   (now r + 120, Write (slice (body r1) 0 350)), (now r + 120, SetTimeout 50),
                   (now r + 170, Write (slice (body r1) 350 700)), (now r + 170, SetTimeout 50),
                   (now r + 220, Write (slice (body r1) 700 900)), (now r + 220, End None)] \<and>
            map length (writes evs) = [350, 350, 200] \<and>
            write_times evs = [now r + 120, now r + 170, now r + 220] \<and>
            end_times evs = [now r + 220])"
proof -
  let ?t0 = "now r + 120"
  let ?h = "map (after_ticks server_throttle ?t0 0 r1) [0..<Suc 3]"
  let ?evs = "[(now r, SetTimeout 120),
               (now r + 120, Write (slice (body r1) 0 350)), (now r + 120, SetTimeout 50),
               (now r + 170, Write (slice (body r1) 350 700)), (now r + 170, SetTimeout 50),
               (now r + 220, Write (slice (body r1) 700 900)), (now r + 220, End None)]"
  have pos: "0 < chunk server_throttle" by (simp add: server_throttle_values)
  have ne: "body r1 \<noteq> []" using assms(2) by auto
  have n: "ceil_div (length (body r1)) 350 = 3"
    by (simp add: assms(2) ceil_div_def)
  have run: "run_timers server_throttle r1 = Some ?h"
    using res_end_run[OF pos assms(1) ne] by (simp only: server_throttle_values n)
  have three: "[0..<3] = [0, 1, 2]" by (simp add: upt_rec)
  have "out (after_ticks server_throttle ?t0 0 r1 3) = out r @ ?evs"
    using res_end_nonempty(3)[OF assms(1) ne]
    by (simp add: after_ticks_def three tick_events_def server_throttle_values assms(2) add.commute)
  then have out: "out (last ?h) = out r @ ?evs"
    by (simp only: last_run)
  have sizes: "map length (writes ?evs) = [350, 350, 200]"
    by (simp add: slice_def assms(2))
  from run out sizes show ?thesis
    by (simp add: CHUNK_SIZE_value server_throttle_values)
qed

theorem scenario_900_bytes_witness:
  "length (body (res_end server_throttle latin1 (Some (Buf (replicate 900 1))) None (wrapped_response 0))) = 900 \<and>
   (\<exists>h. run_timers server_throttle
          (res_end server_throttle latin1 (Some (Buf (replicate 900 1))) None (wrapped_response 0)) = Some h \<and>
        map length (writes (out (last h))) = [350, 350, 200] \<and>
        write_times (out (last h)) = [120, 170, 220] \<and>
        end_times (out (last h)) = [220])"
proof -
  let ?r1 = "res_end server_throttle latin1 (Some (Buf (replicate 900 1))) None (wrapped_response 0)"
  have b: "length (body ?r1) = 900" by (simp add: run_defs)
  have o: "out (wrapped_response 0) = []" "now (wrapped_response 0) = 0" by (simp_all add: run_defs)
  from scenario_900_bytes[OF refl b] show ?thesis
    using b o by auto
qed

text \<open>
  C9. The claim promises status 400 for every submission whose message is empty. The
  handler trims the name before it looks at the message, and \<open>trim\<close> is not a method of
  an array: for the body \<open>name=a&name=b&message=\<close>, whose message is empty, line 294
  throws a \<open>TypeError\<close> and no status 400 is sent. The same happens on line 294 when
  \<open>req.body\<close> is undefined. (\<open>string_fields_empty_message\<close> above is the case in which the
  claim holds, and with it the page reaches the underlying response.)
\<close>

theorem repeated_name_throws:
  "post_sign_guestbook modem cfg bf today page repeated_name_request file res = Inl TypeError \<and>
   post_sign_guestbook modem cfg bf today page unparsed_request file res = Inl TypeError"
  by (simp add: post_sign_guestbook_def modemThrottle_def sign_guestbook_def
      repeated_name_request_def unparsed_request_def text_field_def and_then_def)

text \<open>
  C10. For every string the result of \<open>escapeHtml\<close> contains none of \<open><\<close>, \<open>>\<close>, the double
  quote and the single quote, and every \<open>&\<close> in it begins one of the five entities; for
  \<open>null\<close> and for the empty string the result is empty. \<open>renderEntry\<close>, on an entry
  none of whose fields is a truthy value other than a string, returns the template with
  the result of \<open>escapeHtml\<close> on the date, the name, the url, the message and the favorite
  in their places (the link only when the url is truthy, the favorite line only when the
  favorite is), and nothing else of the entry; on any other entry \<open>escapeHtml\<close> throws and
  so does \<open>renderEntry\<close>. Hence the markup characters of a rendering depend on no more
  than whether the url and the favorite are present, and every \<open>&\<close> of a rendering begins
  an entity.
\<close>

theorem escapeHtml_neutralises:
  \<open>(\<exists>out. escapeHtml (JString s) = Inr out \<and> (\<forall>c \<in> set out. \<not> special c) \<and> amps_ok out) \<and>
   escapeHtml Nullish = Inr [] \<and> escapeHtml (JString []) = Inr [] \<and>
   (JTruthy \<notin> {date e, name e, url e, message e, favorite e} \<longrightarrow>
      (\<exists>d n u m f.
         escapeHtml (date e) = Inr d \<and> escapeHtml (name e) = Inr n \<and>
         escapeHtml (url e) = Inr u \<and> escapeHtml (message e) = Inr m \<and>
         escapeHtml (favorite e) = Inr f \<and>
         renderEntry e =
           Inr (''  <div class="gb-entry">\<newline>    <span class="gb-date">'' @ d
                @ ''</span>\<newline>    <span class="gb-name">''
                @ (if truthy_value (url e) then ''<a href="'' @ u @ ''">'' @ n @ ''</a>'' else n)
                @ ''</span>\<newline>    <div class="gb-message">\<newline>      ''
                @ m
                @ (if truthy_value (favorite e)
                   then ''<br><span style="font-size: 10px; color: #888;">Favorite game: ''
                        @ f @ ''</span>''
                   else [])
                @ ''\<newline>    </div>\<newline>  </div>\<newline>''))) \<and>
   (JTruthy \<in> {date e, name e, url e, message e, favorite e} \<longrightarrow> renderEntry e = Inl TypeError) \<and>
   (renderEntry e = Inr h \<and> renderEntry e' = Inr h' \<and>
    truthy_value (url e) = truthy_value (url e') \<and>
    truthy_value (favorite e) = truthy_value (favorite e') \<longrightarrow>
      filter special h = filter special h') \<and>
   (renderEntry e = Inr h \<longrightarrow> amps_ok h)\<close>
proof -
  have str: "\<exists>out. escapeHtml (JString s) = Inr out \<and> (\<forall>c \<in> set out. \<not> special c) \<and> amps_ok out"
    using escaped_plain[of _ "JString s"] by (simp add: escapeHtml_eq amps_ok_escaped)
  have empty: "escapeHtml Nullish = Inr []" "escapeHtml (JString []) = Inr []"
    by (simp_all add: escapeHtml_eq escaped_def)
  have ok: \<open>JTruthy \<notin> {date e, name e, url e, message e, favorite e} \<longrightarrow>
      (\<exists>d n u m f.
         escapeHtml (date e) = Inr d \<and> escapeHtml (name e) = Inr n \<and>
         escapeHtml (url e) = Inr u \<and> escapeHtml (message e) = Inr m \<and>
         escapeHtml (favorite e) = Inr f \<and>
         renderEntry e =
           Inr (''  <div class="gb-entry">\<newline>    <span class="gb-date">'' @ d
                @ ''</span>\<newline>    <span class="gb-name">''
                @ (if truthy_value (url e) then ''<a href="'' @ u @ ''">'' @ n @ ''</a>'' else n)
                @ ''</span>\<newline>    <div class="gb-message">\<newline>      ''
                @ m
                @ (if truthy_value (favorite e)
                   then ''<br><span style="font-size: 10px; color: #888;">Favorite game: ''
                        @ f @ ''</span>''
                   else [])
                @ ''\<newline>    </div>\<newline>  </div>\<newline>''))\<close>
    by (simp add: escapeHtml_eq renderEntry_eq)
  have throws: "JTruthy \<in> {date e, name e, url e, message e, favorite e} \<longrightarrow>
      renderEntry e = Inl TypeError"
    by (simp add: renderEntry_eq)
  have markup: "renderEntry e = Inr h \<and> renderEntry e' = Inr h' \<and>
      truthy_value (url e) = truthy_value (url e') \<and>
      truthy_value (favorite e) = truthy_value (favorite e') \<longrightarrow>
        filter special h = filter special h'"
    using renderEntry_markup[of e h e' h'] by blast
  have amps: "renderEntry e = Inr h \<longrightarrow> amps_ok h"
    using amps_ok_renderEntry[of e h] by blast
  from str empty ok throws markup amps show ?thesis by blast
qed

theorem escapeHtml_neutralises_witness:
  \<open>escapeHtml (JString ''<b>Tom & Jerry's</b>'') = Inr ''&lt;b&gt;Tom &amp; Jerry&#039;s&lt;/b&gt;'' \<and>
   filter special ''&lt;b&gt;Tom &amp; Jerry&#039;s&lt;/b&gt;'' = [] \<and>
   amps_ok ''&lt;b&gt;Tom &amp; Jerry&#039;s&lt;/b&gt;'' \<and>
   JTruthy \<notin> {date hostile_entry, name hostile_entry, url hostile_entry, message hostile_entry,
               favorite hostile_entry} \<and>
   renderEntry hostile_entry =
     Inr ''  <div class="gb-entry">\<newline>    <span class="gb-date">01/02/1999</span>\<newline>    <span class="gb-name"><a href="javascript:x">&lt;script&gt;</a></span>\<newline>    <div class="gb-message">\<newline>      Tom &amp; Jerry&#039;s\<newline>    </div>\<newline>  </div>\<newline>'' \<and>
   renderEntry polite_entry =
     Inr ''  <div class="gb-entry">\<newline>    <span class="gb-date"></span>\<newline>    <span class="gb-name"><a href="http://melee.island">Elaine</a></span>\<newline>    <div class="gb-message">\<newline>      Hello\<newline>    </div>\<newline>  </div>\<newline>'' \<and>
   truthy_value (url hostile_entry) = truthy_value (url polite_entry) \<and>
   truthy_value (favorite hostile_entry) = truthy_value (favorite polite_entry) \<and>
   filter special ''  <div class="gb-entry">\<newline>    <span class="gb-date">01/02/1999</span>\<newline>    <span class="gb-name"><a href="javascript:x">&lt;script&gt;</a></span>\<newline>    <div class="gb-message">\<newline>      Tom &amp; Jerry&#039;s\<newline>    </div>\<newline>  </div>\<newline>'' =
   filter special ''  <div class="gb-entry">\<newline>    <span class="gb-date"></span>\<newline>    <span class="gb-name"><a href="http://melee.island">Elaine</a></span>\<newline>    <div class="gb-message">\<newline>      Hello\<newline>    </div>\<newline>  </div>\<newline>'' \<and>
   amps_ok ''  <div class="gb-entry">\<newline>    <span class="gb-date">01/02/1999</span>\<newline>    <span class="gb-name"><a href="javascript:x">&lt;script&gt;</a></span>\<newline>    <div class="gb-message">\<newline>      Tom &amp; Jerry&#039;s\<newline>    </div>\<newline>  </div>\<newline>''\<close>
proof -
  let ?s = \<open>''<b>Tom & Jerry's</b>''\<close>
  let ?H = \<open>''  <div class="gb-entry">\<newline>    <span class="gb-date">01/02/1999</span>\<newline>    <span class="gb-name"><a href="javascript:x">&lt;script&gt;</a></span>\<newline>    <div class="gb-message">\<newline>      Tom &amp; Jerry&#039;s\<newline>    </div>\<newline>  </div>\<newline>''\<close>
  let ?H' = \<open>''  <div class="gb-entry">\<newline>    <span class="gb-date"></span>\<newline>    <span class="gb-name"><a href="http://melee.island">Elaine</a></span>\<newline>    <div class="gb-message">\<newline>      Hello\<newline>    </div>\<newline>  </div>\<newline>''\<close>
  note th = escapeHtml_neutralises[of ?s hostile_entry ?H polite_entry ?H']
  have v: "escapeHtml (JString ?s) = Inr ''&lt;b&gt;Tom &amp; Jerry&#039;s&lt;/b&gt;''"
    by (simp add: escapeHtml_def truthy_value_def replace_all_def)
  from th obtain out where out: "escapeHtml (JString ?s) = Inr out"
    "\<forall>c \<in> set out. \<not> special c" "amps_ok out"
    by blast
  from out(1) v have o: "out = ''&lt;b&gt;Tom &amp; Jerry&#039;s&lt;/b&gt;''" by simp
  from out(2) have plain: "filter special out = []"
    by (simp only: filter_empty_conv)
  have nt: "JTruthy \<notin> {date hostile_entry, name hostile_entry, url hostile_entry,
      message hostile_entry, favorite hostile_entry}"
    by (simp add: hostile_entry_def)
  have vals: "escapeHtml (date hostile_entry) = Inr ''01/02/1999''"
    "escapeHtml (name hostile_entry) = Inr ''&lt;script&gt;''"
    "escapeHtml (url hostile_entry) = Inr ''javascript:x''"
    "escapeHtml (message hostile_entry) = Inr ''Tom &amp; Jerry&#039;s''"
    "escapeHtml (favorite hostile_entry) = Inr []"
    by (simp_all add: hostile_entry_def escapeHtml_def truthy_value_def replace_all_def)
  have flags: "truthy_value (url hostile_entry)" "\<not> truthy_value (favorite hostile_entry)"
    "truthy_value (url hostile_entry) = truthy_value (url polite_entry)"
    "truthy_value (favorite hostile_entry) = truthy_value (favorite polite_entry)"
    by (simp_all add: hostile_entry_def polite_entry_def truthy_value_def)
  from th nt obtain d n u m f where
    "escapeHtml (date hostile_entry) = Inr d" "escapeHtml (name hostile_entry) = Inr n"
    "escapeHtml (url hostile_entry) = Inr u" "escapeHtml (message hostile_entry) = Inr m"
    "escapeHtml (favorite hostile_entry) = Inr f"
    and r: \<open>renderEntry hostile_entry =
           Inr (''  <div class="gb-entry">\<newline>    <span class="gb-date">'' @ d
                @ ''</span>\<newline>    <span class="gb-name">''
                @ (if truthy_value (url hostile_entry)
                   then ''<a href="'' @ u @ ''">'' @ n @ ''</a>'' else n)
                @ ''</span>\<newline>    <div class="gb-message">\<newline>      ''
                @ m
                @ (if truthy_value (favorite hostile_entry)
                   then ''<br><span style="font-size: 10px; color: #888;">Favorite game: ''
                        @ f @ ''</span>''
                   else [])
                @ ''\<newline>    </div>\<newline>  </div>\<newline>'')\<close>
    by blast
  with vals have "d = ''01/02/1999''" "n = ''&lt;script&gt;''" "u = ''javascript:x''"
    "m = ''Tom &amp; Jerry&#039;s''" "f = []"
    by simp_all
  with r flags(1,2) have h: "renderEntry hostile_entry = Inr ?H" by simp
  have h': "renderEntry polite_entry = Inr ?H'"
    by (simp add: renderEntry_eq polite_entry_def truthy_value_def escaped_def escape_char_def)
  from th h h' flags(3,4) have markup: "filter special ?H = filter special ?H'" and amps: "amps_ok ?H"
    by blast+
  from v o plain out(3) nt h h' flags(3,4) markup amps show ?thesis by simp
qed

end
